theory Spec2Isabelle
  imports Complex_Main "HOL-Library.Word"
begin

section \<open>The mascot generator \<^verbatim>\<open>claude/generate_mascot.py\<close>\<close>

text \<open>
  The script draws a fixed sequence of shapes on a 1024 x 1024 RGBA canvas, composites the
  canvas over an opaque background and saves the result twice (RGB and RGBA). The model
  keeps the script's own computations (coordinates, colours, alphas, the order of the draw
  calls) as HOL functions and takes what the script calls but does not contain (the
  rasteriser of the imaging library, \<^verbatim>\<open>pow\<close>, \<^verbatim>\<open>cos\<close>, \<^verbatim>\<open>sin\<close> and the pseudo-random
  generator) as a record of library functions.
\<close>

subsection \<open>Python values: errors, integers, floats\<close>

datatype py_error = IndexError | OverflowError | ValueError | TypeError

text \<open>Exceptions are values: a computation returns \<open>Inl e\<close> where the script raises.\<close>

definition bind_res :: "'e + 'a \<Rightarrow> ('a \<Rightarrow> 'e + 'b) \<Rightarrow> 'e + 'b" where
  "bind_res m f = (case m of Inl e \<Rightarrow> Inl e | Inr x \<Rightarrow> f x)"

fun mapM_res :: "('a \<Rightarrow> 'e + 'b) \<Rightarrow> 'a list \<Rightarrow> 'e + 'b list" where
  "mapM_res f [] = Inr []"
| "mapM_res f (x # xs) =
     (case f x of
        Inl e \<Rightarrow> Inl e
      | Inr y \<Rightarrow> (case mapM_res f xs of Inl e \<Rightarrow> Inl e | Inr ys \<Rightarrow> Inr (y # ys)))"

fun foldM_res :: "('a \<Rightarrow> 's \<Rightarrow> 'e + 's) \<Rightarrow> 'a list \<Rightarrow> 's \<Rightarrow> 'e + 's" where
  "foldM_res f [] s = Inr s"
| "foldM_res f (x # xs) s = (case f x s of Inl e \<Rightarrow> Inl e | Inr s' \<Rightarrow> foldM_res f xs s')"

text \<open>Python indexing \<^verbatim>\<open>xs[i]\<close>: a negative index counts from the end, an index out of
  range raises IndexError.\<close>

definition py_get :: "'a list \<Rightarrow> int \<Rightarrow> py_error + 'a" where
  "py_get xs i =
     (if 0 \<le> i \<and> i < int (length xs) then Inr (xs ! nat i)
      else if i < 0 \<and> - int (length xs) \<le> i then Inr (xs ! nat (int (length xs) + i))
      else Inl IndexError)"

text \<open>\<^verbatim>\<open>range(start, stop, step)\<close> for a step that is not zero (every range of the script).\<close>

definition py_range :: "int \<Rightarrow> int \<Rightarrow> int \<Rightarrow> int list" where
  "py_range start stop step =
     (if 0 < step then map (\<lambda>i. start + int i * step) [0..<nat ((stop - start + step - 1) div step)]
      else map (\<lambda>i. start + int i * step) [0..<nat ((start - stop - step - 1) div (- step))])"

text \<open>
  A Python float is an IEEE 754 binary64 number. The finite ones are modelled as the reals
  they denote; every operation computes the exact real result and rounds it to the nearest
  binary64 number, ties to the even significand (\<open>fl\<close>). \<open>fl_exp x\<close> is the exponent of the
  unit in the last place of \<open>x\<close>: 52 below the binary exponent of \<open>x\<close>, and never below that
  of the subnormal numbers. The exponent is not bounded above in \<open>fl\<close>; where a result can
  reach \<open>2 ^ 1024\<close> the operation overflows, which \<open>f_overflow\<close> tests.
\<close>

definition rne :: "real \<Rightarrow> int" where
  "rne y = (let f = \<lfloor>y\<rfloor>; r = y - of_int f in
      if r < 1 / 2 then f else if 1 / 2 < r then f + 1 else if even f then f else f + 1)"

definition fl_exp :: "real \<Rightarrow> int" where
  "fl_exp x = max \<lfloor>log 2 \<bar>x\<bar>\<rfloor> (- 1022) - 52"

definition fl :: "real \<Rightarrow> real" where
  "fl x = of_int (rne (x / 2 powi fl_exp x)) * 2 powi fl_exp x"

definition f_overflow :: "real \<Rightarrow> bool" where
  "f_overflow x = (2 ^ 1024 \<le> \<bar>fl x\<bar>)"

text \<open>\<^verbatim>\<open>int(x)\<close> on a finite float truncates towards zero.\<close>

definition py_int :: "real \<Rightarrow> int" where
  "py_int x = (if 0 \<le> x then \<lfloor>x\<rfloor> else \<lceil>x\<rceil>)"

text \<open>\<^verbatim>\<open>float(n)\<close>, the conversion Python applies to an integer operand of a float
  operation: the nearest float, OverflowError when there is none.\<close>

definition py_float :: "int \<Rightarrow> py_error + real" where
  "py_float n = (if f_overflow (of_int n) then Inl OverflowError else Inr (fl (of_int n)))"

text \<open>\<^verbatim>\<open>math.sqrt(n)\<close> on an integer: the argument is converted to a float, a negative
  argument raises ValueError, and the square root is correctly rounded.\<close>

definition math_sqrt :: "int \<Rightarrow> py_error + real" where
  "math_sqrt n =
     bind_res (py_float n) (\<lambda>x. if x < 0 then Inl ValueError else Inr (fl (sqrt x)))"

text \<open>\<^verbatim>\<open>math.pi\<close> is the float nearest to \<open>\<pi>\<close>.\<close>

definition math_pi :: real where
  "math_pi = fl pi"

subsection \<open>Canvas and palette\<close>

definition SIZE :: int where "SIZE = 1024"
definition CENTER :: int where "CENTER = SIZE div 2"
definition CX :: int where "CX = CENTER"
definition CY :: int where "CY = CENTER"

text \<open>A colour is a Python tuple of integers.\<close>

type_synonym color = "int list"

definition BG_DARK :: color where "BG_DARK = [10, 10, 13, 255]"
definition GOLD :: color where "GOLD = [212, 168, 83, 255]"
definition GOLD_DARK :: color where "GOLD_DARK = [170, 125, 42, 255]"
definition GOLD_WARM :: color where "GOLD_WARM = [196, 148, 42, 255]"
definition GOLD_LIGHT :: color where "GOLD_LIGHT = [240, 210, 150, 255]"
definition GOLD_PALE :: color where "GOLD_PALE = [255, 235, 190, 255]"
definition BODY_DARK :: color where "BODY_DARK = [30, 30, 36, 255]"
definition BODY_MID :: color where "BODY_MID = [38, 38, 45, 255]"
definition WING_DARK :: color where "WING_DARK = [22, 22, 28, 255]"
definition FACE_DISC :: color where "FACE_DISC = [40, 40, 48, 255]"
definition EYE_BG :: color where "EYE_BG = [6, 6, 8, 255]"

subsection \<open>Drawing helpers\<close>

text \<open>
  A draw call of the imaging library, as the script issues it on its one drawing context:
  \<^verbatim>\<open>d.ellipse(box, fill=c)\<close>, \<^verbatim>\<open>d.ellipse(box, outline=c, width=w)\<close>,
  \<^verbatim>\<open>d.polygon(pts, fill=c)\<close> and \<^verbatim>\<open>d.line(pts, fill=c, width=w)\<close>. The helpers of the script
  build one call each; the drawing context is the list of calls issued so far.
\<close>

datatype draw_op =
    Ellipse "int \<times> int \<times> int \<times> int" color
  | EllipseOutline "int \<times> int \<times> int \<times> int" color int
  | Polygon "(int \<times> int) list" color
  | Line "(int \<times> int) list" color int

definition circle :: "int \<Rightarrow> int \<Rightarrow> int \<Rightarrow> color \<Rightarrow> draw_op" where
  "circle cx cy r fill = Ellipse (cx - r, cy - r, cx + r, cy + r) fill"

definition ring :: "int \<Rightarrow> int \<Rightarrow> int \<Rightarrow> int \<Rightarrow> color \<Rightarrow> draw_op" where
  "ring cx cy r w fill = EllipseOutline (cx - r, cy - r, cx + r, cy + r) fill w"

definition poly :: "(int \<times> int) list \<Rightarrow> color \<Rightarrow> draw_op" where
  "poly pts fill = Polygon pts fill"

definition line :: "int \<Rightarrow> int \<Rightarrow> int \<Rightarrow> int \<Rightarrow> color \<Rightarrow> int \<Rightarrow> draw_op" where
  "line x1 y1 x2 y2 fill w = Line [(x1, y1), (x2, y2)] fill w"

text \<open>\<^verbatim>\<open>aa_line\<close>: a wider line in the colour's first three channels with alpha
  \<^verbatim>\<open>max(10, color[3] // 4)\<close>, then the line itself. \<^verbatim>\<open>color[3]\<close> raises IndexError on a
  colour with fewer than four channels.\<close>

definition aa_line :: "int \<Rightarrow> int \<Rightarrow> int \<Rightarrow> int \<Rightarrow> color \<Rightarrow> int \<Rightarrow> py_error + draw_op list" where
  "aa_line x1 y1 x2 y2 color width =
     bind_res (py_get color 3) (\<lambda>a.
       let glow = take 3 color @ [max 10 (a div 4)]
       in Inr [Line [(x1, y1), (x2, y2)] glow (width + 3),
               Line [(x1, y1), (x2, y2)] color width])"

text \<open>
  \<^verbatim>\<open>lerp(c1, c2, t)\<close> computes \<^verbatim>\<open>int(c1[i] + (c2[i] - c1[i]) * t)\<close> for every index of \<open>c1\<close>.
  The parameter is an integer or a finite float. With an integer the arithmetic is exact.
  With a float, the difference and \<^verbatim>\<open>c1[i]\<close> are converted to floats, the product and the
  sum are rounded, and an overflow anywhere ends in OverflowError (from the conversion, or
  from \<^verbatim>\<open>int\<close> on an infinite sum).
\<close>

datatype py_num = PyInt int | PyFloat real

definition lerp_channel :: "int \<Rightarrow> int \<Rightarrow> py_num \<Rightarrow> py_error + int" where
  "lerp_channel a b t =
     (case t of
        PyInt k \<Rightarrow> Inr (a + (b - a) * k)
      | PyFloat x \<Rightarrow>
          bind_res (py_float (b - a)) (\<lambda>d.
          if f_overflow (d * x) then Inl OverflowError
          else bind_res (py_float a) (\<lambda>fa.
            if f_overflow (fa + fl (d * x)) then Inl OverflowError
            else Inr (py_int (fl (fa + fl (d * x)))))))"

definition lerp :: "color \<Rightarrow> color \<Rightarrow> py_num \<Rightarrow> py_error + color" where
  "lerp c1 c2 t =
     mapM_res (\<lambda>i. bind_res (py_get c2 (int i)) (\<lambda>b. lerp_channel (c1 ! i) b t))
       [0..<length c1]"

subsection \<open>The library functions the script calls\<close>

text \<open>
  The functions of the interpreter's libraries that the script calls and whose results the
  repository does not determine: which pixels a draw call paints (\<open>covers\<close>), the float
  power \<^verbatim>\<open>x ** y\<close>, \<^verbatim>\<open>math.cos\<close>, \<^verbatim>\<open>math.sin\<close>, and the pseudo-random generator with its
  state \<open>'s\<close>: \<^verbatim>\<open>random.seed\<close>, \<^verbatim>\<open>random()\<close> (a float in the half-open unit interval) and
  the generator's \<^verbatim>\<open>_randbelow(n)\<close> (an integer below \<open>n\<close>). Every one is a function: a fixed
  library version computes the same result from the same arguments.
\<close>

record 's pylib =
  covers :: "draw_op \<Rightarrow> int \<Rightarrow> int \<Rightarrow> bool"
  fpow :: "real \<Rightarrow> real \<Rightarrow> real"
  fcos :: "real \<Rightarrow> real"
  fsin :: "real \<Rightarrow> real"
  rng_seed :: "int \<Rightarrow> 's"
  rng_random :: "'s \<Rightarrow> real \<times> 's"
  rng_randbelow :: "nat \<Rightarrow> 's \<Rightarrow> nat \<times> 's"

text \<open>The three generator functions the script uses, as the \<^verbatim>\<open>random\<close> module defines
  them: \<^verbatim>\<open>uniform(a, b) = a + (b - a) * random()\<close>, \<^verbatim>\<open>choice(seq) = seq[_randbelow(len(seq))]\<close>
  and \<^verbatim>\<open>randint(a, b) = a + _randbelow(b - a + 1)\<close>.\<close>

definition uniform :: "'s pylib \<Rightarrow> real \<Rightarrow> real \<Rightarrow> 's \<Rightarrow> real \<times> 's" where
  "uniform L a b s = (let (r, s') = rng_random L s in (fl (a + fl (fl (b - a) * r)), s'))"

definition choice :: "'s pylib \<Rightarrow> 'a list \<Rightarrow> 's \<Rightarrow> py_error + 'a \<times> 's" where
  "choice L seq s =
     (if seq = [] then Inl IndexError
      else let (k, s') = rng_randbelow L (length seq) s
           in bind_res (py_get seq (int k)) (\<lambda>x. Inr (x, s')))"

definition randint :: "'s pylib \<Rightarrow> int \<Rightarrow> int \<Rightarrow> 's \<Rightarrow> py_error + int \<times> 's" where
  "randint L a b s =
     (if b + 1 - a \<le> 0 then Inl ValueError
      else let (k, s') = rng_randbelow L (nat (b + 1 - a)) s in Inr (a + int k, s'))"

subsection \<open>Layer 1: background\<close>

text \<open>The loop \<^verbatim>\<open>for r in range(440, 0, -2)\<close>: \<^verbatim>\<open>t = r / 440\<close>,
  \<^verbatim>\<open>alpha = int(25 * (1 - t) ** 2)\<close>, one circle per radius.\<close>

definition glow_alpha :: "'s pylib \<Rightarrow> real \<Rightarrow> int \<Rightarrow> int \<Rightarrow> int" where
  "glow_alpha L k r rmax =
     (let t = fl (of_int r / of_int rmax) in py_int (fl (k * fpow L (fl (1 - t)) 2)))"

definition layer1 :: "'s pylib \<Rightarrow> draw_op list" where
  "layer1 L =
     map (\<lambda>r. circle CX (CY - 20) r [180, 140, 60, glow_alpha L 25 r 440]) (py_range 440 0 (- 2))"

subsection \<open>Layers 2 to 4: body, head, facial disc\<close>

definition OWL_Y :: int where "OWL_Y = - 25"

definition layer2 :: "draw_op list" where
  "layer2 =
     [Ellipse (CX - 160, CY + 30 + OWL_Y, CX + 160, CY + 290 + OWL_Y) BODY_DARK,
      Ellipse (CX - 155, CY - 40 + OWL_Y, CX + 155, CY + 180 + OWL_Y) BODY_DARK,
      Ellipse (CX - 130, CY - 120 + OWL_Y, CX + 130, CY + 60 + OWL_Y) BODY_DARK]"

definition HEAD_Y :: int where "HEAD_Y = CY - 185 + OWL_Y"
definition HEAD_RX :: int where "HEAD_RX = 148"
definition HEAD_RY :: int where "HEAD_RY = 125"
definition EAR_H :: int where "EAR_H = 70"

definition ear :: "int \<Rightarrow> draw_op list" where
  "ear side =
     (let ear_x = CX + side * 105;
          ear_tip_x = CX + side * 95;
          ear_base_inner = CX + side * 65;
          ear_pts = [(ear_x, HEAD_Y - HEAD_RY + 25),
                     (ear_tip_x, HEAD_Y - HEAD_RY - EAR_H),
                     (ear_base_inner, HEAD_Y - HEAD_RY + 15)]
      in [poly ear_pts BODY_DARK,
          line ear_x (HEAD_Y - HEAD_RY + 25) ear_tip_x (HEAD_Y - HEAD_RY - EAR_H)
            [212, 168, 83, 70] 2])"

definition layer3 :: "draw_op list" where
  "layer3 =
     Ellipse (CX - HEAD_RX, HEAD_Y - HEAD_RY, CX + HEAD_RX, HEAD_Y + HEAD_RY) BODY_DARK
     # concat (map ear [- 1, 1])"

definition layer4 :: "draw_op list" where
  "layer4 =
     [Ellipse (CX - 100, HEAD_Y - 75, CX + 100, HEAD_Y + 55) FACE_DISC,
      poly [(CX - 15, HEAD_Y - 80), (CX, HEAD_Y - 55), (CX + 15, HEAD_Y - 80), (CX, HEAD_Y - 90)]
        BODY_DARK]"

subsection \<open>Layers 5 and 6: eyes and beak\<close>

definition EYE_Y :: int where "EYE_Y = HEAD_Y - 10"
definition EYE_SPACING :: int where "EYE_SPACING = 62"

text \<open>The iris: \<^verbatim>\<open>for r in range(30, 0, -1)\<close> with \<^verbatim>\<open>t = r / 30\<close> and
  \<^verbatim>\<open>col = lerp(GOLD_LIGHT, GOLD_DARK, t * t)\<close>.\<close>

definition iris :: "int \<Rightarrow> py_error + draw_op list" where
  "iris ex =
     mapM_res (\<lambda>r. let t = fl (of_int r / 30)
                    in bind_res (lerp GOLD_LIGHT GOLD_DARK (PyFloat (fl (t * t))))
                         (\<lambda>col. Inr (circle ex EYE_Y r col)))
       (py_range 30 0 (- 1))"

definition eye :: "int \<Rightarrow> py_error + draw_op list" where
  "eye side =
     (let ex = CX + side * EYE_SPACING
      in bind_res (iris ex) (\<lambda>iris_ops. Inr
           ([ring ex EYE_Y 40 3 GOLD,
             circle ex EYE_Y 38 EYE_BG]
            @ iris_ops
            @ [circle ex EYE_Y 12 EYE_BG,
               ring ex EYE_Y 12 1 [212, 168, 83, 40],
               circle (ex - 9) (EYE_Y - 9) 5 GOLD_PALE,
               circle (ex + 5) (EYE_Y + 5) 2 [240, 210, 150, 100]])))"

definition layer5 :: "py_error + draw_op list" where
  "layer5 = bind_res (mapM_res eye [- 1, 1]) (\<lambda>ops. Inr (concat ops))"

definition BEAK_Y :: int where "BEAK_Y = HEAD_Y + 32"

definition layer6 :: "draw_op list" where
  "layer6 =
     [poly [(CX - 11, BEAK_Y), (CX + 11, BEAK_Y), (CX, BEAK_Y + 22)] GOLD_WARM,
      line (CX - 10) (BEAK_Y + 1) CX (BEAK_Y + 20) GOLD_LIGHT 1]"

subsection \<open>Layer 7: wings\<close>

definition wing_pts :: "int \<Rightarrow> (int \<times> int) list" where
  "wing_pts s =
     [(CX + s * 150, CY - 50 + OWL_Y),
      (CX + s * 175, CY + 10 + OWL_Y),
      (CX + s * 200, CY + 80 + OWL_Y),
      (CX + s * 205, CY + 160 + OWL_Y),
      (CX + s * 185, CY + 220 + OWL_Y),
      (CX + s * 155, CY + 260 + OWL_Y),
      (CX + s * 135, CY + 230 + OWL_Y),
      (CX + s * 130, CY + 160 + OWL_Y),
      (CX + s * 135, CY + 60 + OWL_Y)]"

text \<open>The edge accent \<^verbatim>\<open>for i in range(5)\<close> joins \<^verbatim>\<open>wing_pts[i]\<close> and \<^verbatim>\<open>wing_pts[i + 1]\<close>.\<close>

definition wing_edge :: "int \<Rightarrow> int \<Rightarrow> py_error + draw_op" where
  "wing_edge s i =
     bind_res (py_get (wing_pts s) i) (\<lambda>(x1, y1).
     bind_res (py_get (wing_pts s) (i + 1)) (\<lambda>(x2, y2).
       Inr (line x1 y1 x2 y2 [212, 168, 83, 55] 2)))"

text \<open>The feather lines \<^verbatim>\<open>for j, frac in enumerate([0.35, 0.55, 0.75])\<close>; a decimal
  literal is the float nearest to it, and \<^verbatim>\<open>fy = int(CY + OWL_Y + 20 + frac * 200)\<close>.\<close>

definition feather :: "int \<Rightarrow> int \<Rightarrow> real \<Rightarrow> draw_op" where
  "feather s j fracv =
     (let fy = py_int (fl (of_int (CY + OWL_Y + 20) + fl (fracv * 200)));
          fx_inner = CX + s * 138;
          fx_outer = CX + s * (195 - j * 12)
      in line fx_inner fy fx_outer (fy + 12) [212, 168, 83, 30] 1)"

definition wing :: "int \<Rightarrow> py_error + draw_op list" where
  "wing s =
     bind_res (mapM_res (wing_edge s) (py_range 0 5 1)) (\<lambda>edges.
     bind_res (py_get (wing_pts s) 4) (\<lambda>(x4, y4).
     bind_res (py_get (wing_pts s) 5) (\<lambda>(x5, y5).
       Inr ([poly (wing_pts s) WING_DARK]
            @ edges
            @ [line x4 y4 x5 y5 [212, 168, 83, 70] 2]
            @ map (\<lambda>(j, fracv). feather s j fracv)
                [(0, fl (35 / 100)), (1, fl (55 / 100)), (2, fl (75 / 100))]))))"

definition layer7 :: "py_error + draw_op list" where
  "layer7 = bind_res (mapM_res wing [- 1, 1]) (\<lambda>ops. Inr (concat ops))"

subsection \<open>Layer 8: the chest neural pattern\<close>

definition chest_top :: int where "chest_top = CY + 15 + OWL_Y"
definition chest_bot :: int where "chest_bot = CY + 250 + OWL_Y"
definition chest_mid :: int where "chest_mid = (chest_top + chest_bot) div 2"

definition chest_glow :: "'s pylib \<Rightarrow> draw_op list" where
  "chest_glow L =
     map (\<lambda>r. circle CX (chest_mid - 10) r [212, 168, 83, glow_alpha L 12 r 130])
       (py_range 130 0 (- 2))"

definition nodes :: "(int \<times> int) list" where
  "nodes =
     [(CX, chest_top + 10),
      (CX - 35, chest_top + 55),
      (CX + 35, chest_top + 55),
      (CX, chest_top + 70),
      (CX - 70, chest_top + 100),
      (CX - 25, chest_top + 110),
      (CX + 25, chest_top + 110),
      (CX + 70, chest_top + 100),
      (CX - 100, chest_top + 155),
      (CX - 55, chest_top + 160),
      (CX, chest_top + 170),
      (CX + 55, chest_top + 160),
      (CX + 100, chest_top + 155),
      (CX - 70, chest_top + 210),
      (CX - 25, chest_top + 220),
      (CX + 25, chest_top + 220),
      (CX + 70, chest_top + 210)]"

definition conns :: "(int \<times> int) list" where
  "conns =
     [(0, 1), (0, 2), (0, 3),
      (1, 4), (1, 5), (2, 6), (2, 7), (3, 5), (3, 6),
      (4, 8), (4, 9), (5, 9), (5, 10), (6, 10), (6, 11), (7, 11), (7, 12),
      (8, 13), (9, 13), (9, 14), (10, 14), (10, 15), (11, 15), (11, 16), (12, 16),
      (1, 3), (2, 3),
      (4, 5), (6, 7),
      (8, 9), (9, 10), (10, 11), (11, 12),
      (13, 14), (14, 15), (15, 16)]"

text \<open>The body of the loop \<^verbatim>\<open>for a, b in conns\<close>:
  \<^verbatim>\<open>dist = math.sqrt((x2 - x1) ** 2 + (y2 - y1) ** 2)\<close>,
  \<^verbatim>\<open>base_alpha = 100 + int(50 * (1 - min(dist / 200, 1)))\<close>, then four lines.\<close>

definition conn_dist :: "int \<times> int \<Rightarrow> int \<times> int \<Rightarrow> py_error + real" where
  "conn_dist p q = (case (p, q) of ((x1, y1), (x2, y2)) \<Rightarrow> math_sqrt ((x2 - x1) ^ 2 + (y2 - y1) ^ 2))"

definition base_alpha :: "real \<Rightarrow> int" where
  "base_alpha dst = 100 + py_int (fl (50 * fl (1 - min (fl (dst / 200)) 1)))"

definition conn_passes :: "int \<Rightarrow> int \<Rightarrow> int \<Rightarrow> int \<Rightarrow> int \<Rightarrow> draw_op list" where
  "conn_passes x1 y1 x2 y2 ba =
     [line x1 y1 x2 y2 [212, 168, 83, ba div 3] 7,
      line x1 y1 x2 y2 [212, 168, 83, ba div 2] 4,
      line x1 y1 x2 y2 [212, 168, 83, ba] 2,
      line x1 y1 x2 y2 [240, 210, 150, ba div 2] 1]"

definition chest_conn :: "int \<times> int \<Rightarrow> py_error + draw_op list" where
  "chest_conn c = (case c of (a, b) \<Rightarrow>
     bind_res (py_get nodes a) (\<lambda>(x1, y1).
     bind_res (py_get nodes b) (\<lambda>(x2, y2).
     bind_res (conn_dist (x1, y1) (x2, y2)) (\<lambda>dst.
       Inr (conn_passes x1 y1 x2 y2 (base_alpha dst))))))"

text \<open>The body of the loop \<^verbatim>\<open>for i, (nx, ny) in enumerate(nodes)\<close>.\<close>

definition chest_node :: "nat \<Rightarrow> int \<times> int \<Rightarrow> draw_op list" where
  "chest_node i p = (case p of (nx, ny) \<Rightarrow>
     if i = 0 then
       [circle nx ny 12 [212, 168, 83, 60],
        circle nx ny 7 [212, 168, 83, 220],
        circle nx ny 4 GOLD_LIGHT]
     else if i \<le> 3 then
       [circle nx ny 10 [212, 168, 83, 50],
        circle nx ny 6 [212, 168, 83, 200],
        circle nx ny 3 GOLD_LIGHT]
     else if i \<le> 7 then
       [circle nx ny 8 [212, 168, 83, 45],
        circle nx ny 5 [212, 168, 83, 180],
        circle nx ny 2 GOLD_LIGHT]
     else if i \<le> 12 then
       [circle nx ny 7 [212, 168, 83, 40],
        circle nx ny 4 [212, 168, 83, 160],
        circle nx ny 2 GOLD_LIGHT]
     else
       [circle nx ny 6 [212, 168, 83, 35],
        circle nx ny 4 [212, 168, 83, 140],
        circle nx ny 2 GOLD_LIGHT])"

definition layer8 :: "'s pylib \<Rightarrow> py_error + draw_op list" where
  "layer8 L =
     bind_res (mapM_res chest_conn conns) (\<lambda>lines.
       Inr (chest_glow L @ concat lines
            @ concat (map (\<lambda>(i, p). chest_node i p) (enumerate 0 nodes))))"

subsection \<open>Layer 9: the head neural pattern\<close>

definition h_nodes :: "(int \<times> int) list" where
  "h_nodes =
     [(CX, HEAD_Y - 85),
      (CX - 35, HEAD_Y - 70),
      (CX + 35, HEAD_Y - 70),
      (CX - 55, HEAD_Y - 45),
      (CX - 18, HEAD_Y - 48),
      (CX + 18, HEAD_Y - 48),
      (CX + 55, HEAD_Y - 45),
      (CX, HEAD_Y - 28)]"

definition h_conns :: "(int \<times> int) list" where
  "h_conns =
     [(0, 1), (0, 2),
      (1, 3), (1, 4), (2, 5), (2, 6),
      (3, 4), (4, 7), (5, 7), (5, 6),
      (1, 2), (4, 5)]"

definition h_conn_passes :: "int \<Rightarrow> int \<Rightarrow> int \<Rightarrow> int \<Rightarrow> draw_op list" where
  "h_conn_passes x1 y1 x2 y2 =
     [line x1 y1 x2 y2 [212, 168, 83, 30] 5,
      line x1 y1 x2 y2 [212, 168, 83, 70] 2,
      line x1 y1 x2 y2 [240, 210, 150, 35] 1]"

definition head_conn :: "int \<times> int \<Rightarrow> py_error + draw_op list" where
  "head_conn c = (case c of (a, b) \<Rightarrow>
     bind_res (py_get h_nodes a) (\<lambda>(x1, y1).
     bind_res (py_get h_nodes b) (\<lambda>(x2, y2).
       Inr (h_conn_passes x1 y1 x2 y2))))"

definition head_node :: "int \<times> int \<Rightarrow> draw_op list" where
  "head_node p = (case p of (hx, hy) \<Rightarrow>
     [circle hx hy 5 [212, 168, 83, 50],
      circle hx hy 3 [212, 168, 83, 160],
      circle hx hy 1 GOLD_LIGHT])"

definition layer9 :: "py_error + draw_op list" where
  "layer9 =
     bind_res (mapM_res head_conn h_conns) (\<lambda>lines.
       Inr (concat lines @ concat (map head_node h_nodes)))"

subsection \<open>Layer 10: feet\<close>

definition FEET_Y :: int where "FEET_Y = CY + 280 + OWL_Y"

definition foot :: "int \<Rightarrow> draw_op list" where
  "foot side =
     (let fx = CX + side * 45
      in map (\<lambda>offset. line (fx + offset) FEET_Y (fx + offset + side * 4) (FEET_Y + 16)
                         [212, 168, 83, 80] 2)
           [- 10, 0, 10])"

definition layer10 :: "draw_op list" where
  "layer10 = concat (map foot [- 1, 1])"

subsection \<open>Layer 11: frame and ambient particles\<close>

text \<open>
  One round of the loop \<^verbatim>\<open>for _ in range(25)\<close> draws, in this order,
  \<^verbatim>\<open>angle = random.uniform(0, 2 * math.pi)\<close>, \<^verbatim>\<open>dist = random.uniform(360, 465)\<close>,
  \<^verbatim>\<open>sz = random.choice([1, 1, 2])\<close> and \<^verbatim>\<open>alpha = random.randint(15, 45)\<close> from the generator
  (\<open>px\<close> and \<open>py\<close> are computed between the second and the third draw and use no
  randomness of their own).
\<close>

record particle =
  p_angle :: real
  p_dist :: real
  p_sz :: int
  p_alpha :: int

definition draw_particle :: "'s pylib \<Rightarrow> 's \<Rightarrow> py_error + particle \<times> 's" where
  "draw_particle L s =
     (let (angle, s1) = uniform L 0 (fl (2 * math_pi)) s;
          (dst, s2) = uniform L 360 465 s1
      in bind_res (choice L [1, 1, 2] s2) (\<lambda>(sz, s3).
         bind_res (randint L 15 45 s3) (\<lambda>(alpha, s4).
           Inr (\<lparr>p_angle = angle, p_dist = dst, p_sz = sz, p_alpha = alpha\<rparr>, s4))))"

fun draw_particles :: "'s pylib \<Rightarrow> nat \<Rightarrow> 's \<Rightarrow> py_error + particle list \<times> 's" where
  "draw_particles L 0 s = Inr ([], s)"
| "draw_particles L (Suc n) s =
     bind_res (draw_particle L s) (\<lambda>(p, s').
     bind_res (draw_particles L n s') (\<lambda>(ps, s''). Inr (p # ps, s'')))"

definition particle_op :: "'s pylib \<Rightarrow> particle \<Rightarrow> draw_op" where
  "particle_op L p =
     (let px = py_int (fl (of_int CX + fl (p_dist p * fcos L (p_angle p))));
          py = py_int (fl (of_int CY + fl (p_dist p * fsin L (p_angle p))))
      in circle px py (p_sz p) [212, 168, 83, p_alpha p])"

definition ambient_particles :: "'s pylib \<Rightarrow> 's \<Rightarrow> py_error + particle list" where
  "ambient_particles L s = bind_res (draw_particles L 25 s) (\<lambda>(ps, s'). Inr ps)"

definition layer11 :: "'s pylib \<Rightarrow> 's \<Rightarrow> py_error + draw_op list" where
  "layer11 L s =
     bind_res (ambient_particles L s) (\<lambda>ps.
       Inr (ring CX CY 478 1 [212, 168, 83, 40] # map (particle_op L) ps))"

subsection \<open>The whole sequence of draw calls\<close>

text \<open>\<^verbatim>\<open>random.seed(42)\<close> is the first statement of the script; the particle loop is the only
  user of the generator.\<close>

definition draw_calls :: "'s pylib \<Rightarrow> py_error + draw_op list" where
  "draw_calls L =
     bind_res layer5 (\<lambda>l5.
     bind_res layer7 (\<lambda>l7.
     bind_res (layer8 L) (\<lambda>l8.
     bind_res layer9 (\<lambda>l9.
     bind_res (layer11 L (rng_seed L 42)) (\<lambda>l11.
       Inr (layer1 L @ layer2 @ layer3 @ layer4 @ l5 @ layer6 @ l7 @ l8 @ l9 @ layer10 @ l11))))))"

subsection \<open>Rasters and the imaging library's operations on them\<close>

text \<open>
  A raster has a size and one pixel per coordinate; a pixel of an RGBA raster is four 8-bit
  channels, a pixel of an RGB raster three. The imaging library is not part of the
  repository. Its operations are modelled as the script relies on them:
  \<^item> an ink is made from a colour tuple of three or four channels, each clipped to 8 bits
    (the script only passes four-channel colours; other lengths are refused here);
  \<^item> \<^verbatim>\<open>Image.new('RGBA', size, color)\<close> fills a raster of that size with the ink;
  \<^item> a draw call on the drawing context of an RGBA raster stores its ink, alpha included,
    in every pixel of the raster that the shape covers (a context of the raster's own mode
    does not blend), and leaves the size alone;
  \<^item> \<^verbatim>\<open>Image.alpha_composite(im1, im2)\<close> needs two rasters of one size and combines them
    pixel by pixel, \<open>im2\<close> over \<open>im1\<close>, in the library's 32-bit integer arithmetic;
  \<^item> \<^verbatim>\<open>convert('RGB')\<close> drops the alpha channel.
\<close>

type_synonym rgba = "8 word \<times> 8 word \<times> 8 word \<times> 8 word"
type_synonym rgb = "8 word \<times> 8 word \<times> 8 word"

record 'p image =
  isize :: "int \<times> int"
  ipix :: "int \<Rightarrow> int \<Rightarrow> 'p"

definition CLIP8 :: "int \<Rightarrow> 8 word" where
  "CLIP8 v = (if v \<le> 0 then 0 else if v < 256 then word_of_int v else 255)"

fun getink :: "color \<Rightarrow> py_error + rgba" where
  "getink [r, g, b, a] = Inr (CLIP8 r, CLIP8 g, CLIP8 b, CLIP8 a)"
| "getink [r, g, b] = Inr (CLIP8 r, CLIP8 g, CLIP8 b, 255)"
| "getink c = Inl TypeError"

definition image_new :: "int \<times> int \<Rightarrow> color \<Rightarrow> py_error + rgba image" where
  "image_new sz color =
     (if fst sz < 0 \<or> snd sz < 0 then Inl ValueError
      else bind_res (getink color) (\<lambda>ink. Inr \<lparr>isize = sz, ipix = (\<lambda>x y. ink)\<rparr>))"

fun op_color :: "draw_op \<Rightarrow> color" where
  "op_color (Ellipse box c) = c"
| "op_color (EllipseOutline box c w) = c"
| "op_color (Polygon pts c) = c"
| "op_color (Line pts c w) = c"

definition pil_draw :: "'s pylib \<Rightarrow> draw_op \<Rightarrow> rgba image \<Rightarrow> py_error + rgba image" where
  "pil_draw L d im =
     bind_res (getink (op_color d)) (\<lambda>ink.
       Inr (im\<lparr>ipix := (\<lambda>x y.
              if 0 \<le> x \<and> x < fst (isize im) \<and> 0 \<le> y \<and> y < snd (isize im) \<and> covers L d x y
              then ink else ipix im x y)\<rparr>))"

definition SHIFTFORDIV255 :: "32 word \<Rightarrow> 32 word" where
  "SHIFTFORDIV255 a = drop_bit 8 (drop_bit 8 a + a)"

definition PRECISION_BITS :: nat where "PRECISION_BITS = 7"

definition composite_px :: "rgba \<Rightarrow> rgba \<Rightarrow> rgba" where
  "composite_px dst src = (case (dst, src) of ((dr, dg, db, da), (sr, sg, sb, sa)) \<Rightarrow>
     if sa = 0 then dst
     else
       let blend = (ucast da :: 32 word) * (255 - ucast sa);
           outa255 = ucast sa * 255 + blend;
           coef1 = (ucast sa * 255 * 255 * push_bit PRECISION_BITS 1) div outa255;
           coef2 = 255 * push_bit PRECISION_BITS 1 - coef1;
           tmpr = ucast sr * coef1 + ucast dr * coef2;
           tmpg = ucast sg * coef1 + ucast dg * coef2;
           tmpb = ucast sb * coef1 + ucast db * coef2
       in (ucast (drop_bit PRECISION_BITS (SHIFTFORDIV255 (tmpr + push_bit PRECISION_BITS 128))),
           ucast (drop_bit PRECISION_BITS (SHIFTFORDIV255 (tmpg + push_bit PRECISION_BITS 128))),
           ucast (drop_bit PRECISION_BITS (SHIFTFORDIV255 (tmpb + push_bit PRECISION_BITS 128))),
           ucast (SHIFTFORDIV255 (outa255 + 128))))"

definition alpha_composite :: "rgba image \<Rightarrow> rgba image \<Rightarrow> py_error + rgba image" where
  "alpha_composite im1 im2 =
     (if isize im1 \<noteq> isize im2 then Inl ValueError
      else Inr \<lparr>isize = isize im1, ipix = (\<lambda>x y. composite_px (ipix im1 x y) (ipix im2 x y))\<rparr>)"

definition convert_RGB :: "rgba image \<Rightarrow> rgb image" where
  "convert_RGB im = \<lparr>isize = isize im, ipix = (\<lambda>x y. case ipix im x y of (r, g, b, a) \<Rightarrow> (r, g, b))\<rparr>"

subsection \<open>Rendering and saving\<close>

text \<open>
  The canvas \<open>img\<close> is created with the background colour and receives every draw call in
  order. The save section composites it over a fresh background raster (\<open>img_final\<close>),
  converts that to RGB (\<open>img_rgb\<close>) and saves \<open>img_rgb\<close> as \<^verbatim>\<open>mascot-hora.png\<close> and
  \<open>img_final\<close> as \<^verbatim>\<open>mascot-hora-rgba.png\<close>. PNG is lossless, so a saved file is identified
  with the raster it holds; whether the two writes succeed depends on the output directory
  of the machine and is not part of the model, which ends with the two rasters handed to
  \<^verbatim>\<open>save\<close>. The script draws each shape as soon as it has computed it; the
  model collects the draw calls first and applies them afterwards, which gives the same
  canvas, and an exception in either part ends the run before the first save.
\<close>

definition render :: "'s pylib \<Rightarrow> py_error + rgba image" where
  "render L =
     bind_res (image_new (SIZE, SIZE) BG_DARK) (\<lambda>img.
     bind_res (draw_calls L) (\<lambda>ops.
       foldM_res (pil_draw L) ops img))"

record outputs =
  rgb_file :: "rgb image"
  rgba_file :: "rgba image"

definition save_section :: "rgba image \<Rightarrow> py_error + outputs" where
  "save_section img =
     bind_res (image_new (SIZE, SIZE) BG_DARK) (\<lambda>bg.
     bind_res (alpha_composite bg img) (\<lambda>img_final.
       let img_rgb = convert_RGB img_final
       in Inr \<lparr>rgb_file = img_rgb, rgba_file = img_final\<rparr>))"

definition main :: "'s pylib \<Rightarrow> py_error + outputs" where
  "main L = bind_res (render L) save_section"

subsection \<open>Reading a draw call\<close>

text \<open>The colour, the stroke width (0 for a filled shape), the alpha channel \<^verbatim>\<open>color[3]\<close>, the
  points and, for an ellipse, the radius (half the width of its box) of a draw call.\<close>

fun op_width :: "draw_op \<Rightarrow> int" where
  "op_width (Line pts c w) = w"
| "op_width (EllipseOutline box c w) = w"
| "op_width (Ellipse box c) = 0"
| "op_width (Polygon pts c) = 0"

definition op_alpha :: "draw_op \<Rightarrow> int" where
  "op_alpha d = op_color d ! 3"

fun op_points :: "draw_op \<Rightarrow> (int \<times> int) list" where
  "op_points (Line pts c w) = pts"
| "op_points (Polygon pts c) = pts"
| "op_points (Ellipse (x0, y0, x1, y1) c) = [(x0, y0), (x1, y1)]"
| "op_points (EllipseOutline (x0, y0, x1, y1) c w) = [(x0, y0), (x1, y1)]"

fun ellipse_radius :: "draw_op \<Rightarrow> int" where
  "ellipse_radius (Ellipse (x0, y0, x1, y1) c) = (x1 - x0) div 2"
| "ellipse_radius (EllipseOutline (x0, y0, x1, y1) c w) = (x1 - x0) div 2"
| "ellipse_radius d = 0"

subsection \<open>The specification's formula for the alpha of a connection\<close>

text \<open>The Euclidean distance of two points, and the alpha the specification gives for a
  connection of that length, both in exact real arithmetic.\<close>

definition euclid :: "int \<times> int \<Rightarrow> int \<times> int \<Rightarrow> real" where
  "euclid p q = sqrt (of_int ((fst q - fst p)\<^sup>2 + (snd q - snd p)\<^sup>2))"

definition spec_alpha :: "real \<Rightarrow> int" where
  "spec_alpha d = 100 + \<lfloor>50 * (1 - min (d / 200) 1)\<rfloor>"

subsection \<open>Reading a pixel\<close>

text \<open>The alpha channel and the colour channels of an RGBA pixel; a list of draw calls
  whose colours all have four channels.\<close>

definition px_alpha :: "rgba \<Rightarrow> 8 word" where
  "px_alpha p = (case p of (r, g, b, a) \<Rightarrow> a)"

definition px_rgb :: "rgba \<Rightarrow> rgb" where
  "px_rgb p = (case p of (r, g, b, a) \<Rightarrow> (r, g, b))"

definition rgba_ops :: "draw_op list \<Rightarrow> bool" where
  "rgba_ops ops = list_all (\<lambda>d. length (op_color d) = 4) ops"

subsection \<open>What the script expects of the generator\<close>

text \<open>
  The contract of the generator functions: \<^verbatim>\<open>_randbelow(n)\<close> is below \<open>n\<close> for a positive
  \<open>n\<close>, and \<^verbatim>\<open>random()\<close> is a float in the half-open unit interval.
\<close>

definition randbelow_ok :: "'s pylib \<Rightarrow> bool" where
  "randbelow_ok L = (\<forall>n s. fst (rng_randbelow L (Suc n) s) \<le> n)"


text \<open>
  Two generators, with states of any two types, behave alike from the seed 42 when a relation
  of their states holds of the two seeded states and is kept by every draw, and related
  states give equal draws.
\<close>

definition rng_sim :: "('s \<Rightarrow> 't \<Rightarrow> bool) \<Rightarrow> 's pylib \<Rightarrow> 't pylib \<Rightarrow> bool" where
  "rng_sim R L1 L2 =
     (R (rng_seed L1 42) (rng_seed L2 42) \<and>
      (\<forall>s t. R s t \<longrightarrow>
         fst (rng_random L1 s) = fst (rng_random L2 t) \<and>
         R (snd (rng_random L1 s)) (snd (rng_random L2 t))) \<and>
      (\<forall>n s t. R s t \<longrightarrow>
         fst (rng_randbelow L1 n s) = fst (rng_randbelow L2 n t) \<and>
         R (snd (rng_randbelow L1 n s)) (snd (rng_randbelow L2 n t))))"


subsection \<open>Two sample libraries\<close>

text \<open>
  A library to instantiate the statements about arbitrary libraries with: a shape covers the
  box of its first two points, the mathematical functions are the rounded exact ones, and
  the generator counts up from the seed. The second one is the same library with integer
  generator states.
\<close>

definition sample_lib :: "nat pylib" where
  "sample_lib =
     \<lparr>covers = (\<lambda>d x y. case op_points d of
                   (x0, y0) # (x1, y1) # ps \<Rightarrow>
                     min x0 x1 \<le> x \<and> x \<le> max x0 x1 \<and> min y0 y1 \<le> y \<and> y \<le> max y0 y1
                 | _ \<Rightarrow> False),
      fpow = (\<lambda>x y. fl (x powr y)),
      fcos = (\<lambda>x. fl (cos x)),
      fsin = (\<lambda>x. fl (sin x)),
      rng_seed = (\<lambda>n. nat \<bar>n\<bar>),
      rng_random = (\<lambda>s. (of_nat (s mod 4) / 4, Suc s)),
      rng_randbelow = (\<lambda>n s. (s mod n, Suc s))\<rparr>"

definition sample_lib_int :: "int pylib" where
  "sample_lib_int =
     \<lparr>covers = covers sample_lib,
      fpow = fpow sample_lib,
      fcos = fcos sample_lib,
      fsin = fsin sample_lib,
      rng_seed = (\<lambda>n. \<bar>n\<bar>),
      rng_random = (\<lambda>s. (of_int (s mod 4) / 4, s + 1)),
      rng_randbelow = (\<lambda>n s. (nat (s mod int n), s + 1))\<rparr>"

section \<open>Properties of the float arithmetic\<close>

subsection \<open>Rounding to the nearest integer, ties to even\<close>

lemma rne_of_int: "rne (of_int k) = k"
  by (simp add: rne_def)

lemma rne_ge_floor: "\<lfloor>y\<rfloor> \<le> rne y"
  by (simp add: rne_def Let_def)

lemma rne_le_floor1: "rne y \<le> \<lfloor>y\<rfloor> + 1"
  by (simp add: rne_def Let_def)

lemma rne_mono: "x \<le> y \<Longrightarrow> rne x \<le> rne y"
proof -
  assume xy: "x \<le> y"
  have f: "\<lfloor>x\<rfloor> \<le> \<lfloor>y\<rfloor>" using xy by (rule floor_mono)
  show ?thesis
  proof (cases "\<lfloor>x\<rfloor> = \<lfloor>y\<rfloor>")
    case True
    then show ?thesis using xy by (simp add: rne_def Let_def)
  next
    case False
    then have "\<lfloor>x\<rfloor> + 1 \<le> \<lfloor>y\<rfloor>" using f by simp
    then show ?thesis using rne_le_floor1 [of x] rne_ge_floor [of y] by linarith
  qed
qed

lemma rne_err: "\<bar>of_int (rne y) - y\<bar> \<le> 1 / 2"
proof -
  have "of_int \<lfloor>y\<rfloor> \<le> y" "y < of_int \<lfloor>y\<rfloor> + 1" by linarith+
  then show ?thesis unfolding rne_def Let_def by (simp split: if_splits) 
qed

lemma floor_uminus_nonint: "y \<noteq> of_int \<lfloor>y\<rfloor> \<Longrightarrow> \<lfloor>- y\<rfloor> = - \<lfloor>y\<rfloor> - 1" for y :: real
proof -
  assume a: "y \<noteq> of_int \<lfloor>y\<rfloor>"
  have "of_int \<lfloor>y\<rfloor> \<le> y" "y < of_int \<lfloor>y\<rfloor> + 1" by linarith+
  with a have "of_int \<lfloor>y\<rfloor> < y" by linarith
  then have "of_int (- \<lfloor>y\<rfloor> - 1) \<le> - y" "- y < of_int (- \<lfloor>y\<rfloor> - 1) + 1"
    using \<open>y < of_int \<lfloor>y\<rfloor> + 1\<close> by (simp_all, linarith+)
  then show ?thesis by (rule floor_unique)
qed

lemma rne_uminus: "rne (- y) = - rne y"
proof (cases "y = of_int \<lfloor>y\<rfloor>")
  case True
  then obtain k where "y = of_int k" ..
  then show ?thesis using rne_of_int [of "- k"] rne_of_int [of k] by simp
next
  case False
  have fl: "\<lfloor>- y\<rfloor> = - \<lfloor>y\<rfloor> - 1" using False by (rule floor_uminus_nonint)
  have e: "even (- \<lfloor>y\<rfloor> - 1) = odd \<lfloor>y\<rfloor>" by simp
  show ?thesis
    unfolding rne_def Let_def fl e by (simp split: if_splits)
qed

subsection \<open>Rounding to binary64: sign, binades, monotonicity\<close>

lemma two_powi_pos: "0 < (2::real) powi e"
  by simp

lemma fl_zero: "fl 0 = 0"
  by (simp add: fl_def rne_def)

lemma fl_uminus: "fl (- x) = - fl x"
  by (simp add: fl_def fl_exp_def rne_uminus)

lemma fl_nonneg: "0 \<le> x \<Longrightarrow> 0 \<le> fl x"
proof -
  assume "0 \<le> x"
  then have "0 \<le> x / 2 powi fl_exp x" by simp
  then have "0 \<le> \<lfloor>x / 2 powi fl_exp x\<rfloor>" by simp
  then have "0 \<le> rne (x / 2 powi fl_exp x)" using rne_ge_floor [of "x / 2 powi fl_exp x"] by linarith
  then show ?thesis by (simp add: fl_def)
qed

lemma floor_log2_le: "0 < x \<Longrightarrow> 2 powi \<lfloor>log 2 x\<rfloor> \<le> x"
proof -
  assume x: "0 < x"
  have "real_of_int \<lfloor>log 2 x\<rfloor> \<le> log 2 x" by simp
  then have "2 powr real_of_int \<lfloor>log 2 x\<rfloor> \<le> 2 powr log 2 x" by (simp del: of_int_floor_le)
  then show ?thesis using x by (simp add: powr_real_of_int')
qed

lemma floor_log2_gt: "0 < x \<Longrightarrow> x < 2 powi (\<lfloor>log 2 x\<rfloor> + 1)"
proof -
  assume x: "0 < x"
  have "log 2 x < real_of_int (\<lfloor>log 2 x\<rfloor> + 1)" by linarith
  then have "2 powr log 2 x < 2 powr real_of_int (\<lfloor>log 2 x\<rfloor> + 1)" by (simp del: of_int_add)
  then show ?thesis using x by (simp add: powr_real_of_int' del: of_int_add)
qed

lemma fl_exp_upper: "0 < x \<Longrightarrow> x < 2 powi (fl_exp x + 53)"
proof -
  assume x: "0 < x"
  have "\<lfloor>log 2 x\<rfloor> + 1 \<le> fl_exp x + 53" using x by (simp add: fl_exp_def)
  then have "(2::real) powi (\<lfloor>log 2 x\<rfloor> + 1) \<le> 2 powi (fl_exp x + 53)"
    by (intro power_int_increasing) simp_all
  then show ?thesis using floor_log2_gt [OF x] by linarith
qed

lemma fl_exp_lower: "0 < x \<Longrightarrow> - 1074 < fl_exp x \<Longrightarrow> 2 powi (fl_exp x + 52) \<le> x"
proof -
  assume x: "0 < x" and e: "- 1074 < fl_exp x"
  have "fl_exp x + 52 = \<lfloor>log 2 x\<rfloor>" using x e by (simp add: fl_exp_def max_def split: if_splits)
  then show ?thesis using floor_log2_le [OF x] by simp
qed

lemma fl_exp_mono: "0 < x \<Longrightarrow> x \<le> y \<Longrightarrow> fl_exp x \<le> fl_exp y"
proof -
  assume x: "0 < x" and xy: "x \<le> y"
  have "log 2 x \<le> log 2 y" using x xy by simp
  then have "\<lfloor>log 2 x\<rfloor> \<le> \<lfloor>log 2 y\<rfloor>" by (rule floor_mono)
  then show ?thesis using x xy by (simp add: fl_exp_def)
qed

lemma fl_le_top: "0 < x \<Longrightarrow> fl x \<le> 2 powi (fl_exp x + 53)"
proof -
  assume x: "0 < x"
  let ?e = "fl_exp x"
  have "x / 2 powi ?e \<le> 2 powi (?e + 53) / 2 powi ?e"
    using fl_exp_upper [OF x] by (simp add: divide_right_mono)
  also have "\<dots> = 2 ^ 53" by (simp add: power_int_add)
  finally have "x / 2 powi ?e \<le> of_int (2 ^ 53)" by simp
  then have "rne (x / 2 powi ?e) \<le> rne (of_int (2 ^ 53))" by (rule rne_mono)
  then have "rne (x / 2 powi ?e) \<le> 2 ^ 53" by (simp only: rne_of_int)
  then have "real_of_int (rne (x / 2 powi ?e)) \<le> 2 ^ 53"
    by (metis of_int_le_iff of_int_numeral of_int_power)
  then have "fl x \<le> 2 ^ 53 * 2 powi ?e"
    unfolding fl_def by (simp add: mult_right_mono)
  then show ?thesis by (simp add: power_int_add mult.commute)
qed

lemma fl_ge_bot: "0 < x \<Longrightarrow> - 1074 < fl_exp x \<Longrightarrow> 2 powi (fl_exp x + 52) \<le> fl x"
proof -
  assume x: "0 < x" and e: "- 1074 < fl_exp x"
  let ?e = "fl_exp x"
  have "2 powi (?e + 52) / 2 powi ?e \<le> x / 2 powi ?e"
    using fl_exp_lower [OF x e] by (simp add: divide_right_mono)
  moreover have "2 powi (?e + 52) / 2 powi ?e = (2::real) ^ 52" by (simp add: power_int_add)
  ultimately have "of_int (2 ^ 52) \<le> x / 2 powi ?e" by simp
  then have "rne (of_int (2 ^ 52)) \<le> rne (x / 2 powi ?e)" by (rule rne_mono)
  then have "2 ^ 52 \<le> rne (x / 2 powi ?e)" by (simp only: rne_of_int)
  then have "2 ^ 52 \<le> real_of_int (rne (x / 2 powi ?e))"
    by (metis of_int_le_iff of_int_numeral of_int_power)
  then have "2 ^ 52 * 2 powi ?e \<le> fl x"
    unfolding fl_def by (simp add: mult_right_mono)
  then show ?thesis by (simp add: power_int_add mult.commute)
qed

lemma fl_mono_pos: "0 < x \<Longrightarrow> x \<le> y \<Longrightarrow> fl x \<le> fl y"
proof -
  assume x: "0 < x" and xy: "x \<le> y"
  have y: "0 < y" using x xy by linarith
  have e: "fl_exp x \<le> fl_exp y" using x xy by (rule fl_exp_mono)
  show ?thesis
  proof (cases "fl_exp x = fl_exp y")
    case True
    have "x / 2 powi fl_exp y \<le> y / 2 powi fl_exp y" using xy by (simp add: divide_right_mono)
    then have "rne (x / 2 powi fl_exp y) \<le> rne (y / 2 powi fl_exp y)" by (rule rne_mono)
    then show ?thesis unfolding fl_def True by (simp add: mult_right_mono)
  next
    case False
    then have lt: "fl_exp x + 1 \<le> fl_exp y" using e by simp
    have "- 1074 \<le> fl_exp x" by (simp add: fl_exp_def)
    then have b: "- 1074 < fl_exp y" using lt by linarith
    have "fl x \<le> 2 powi (fl_exp x + 53)" using x by (rule fl_le_top)
    also have "\<dots> \<le> 2 powi (fl_exp y + 52)" using lt by (intro power_int_increasing) simp_all
    also have "\<dots> \<le> fl y" using y b by (rule fl_ge_bot)
    finally show ?thesis .
  qed
qed

lemma fl_mono: "x \<le> y \<Longrightarrow> fl x \<le> fl y"
proof -
  assume xy: "x \<le> y"
  consider "0 < x" | "x \<le> 0" "0 \<le> y" | "y < 0" by linarith
  then show ?thesis
  proof cases
    case 1
    then show ?thesis using xy by (rule fl_mono_pos)
  next
    case 2
    have "0 \<le> fl (- x)" using 2 by (intro fl_nonneg) simp
    then have "fl x \<le> 0" by (simp add: fl_uminus)
    moreover have "0 \<le> fl y" using 2 by (intro fl_nonneg)
    ultimately show ?thesis by linarith
  next
    case 3
    have "fl (- y) \<le> fl (- x)" using 3 xy by (intro fl_mono_pos) simp_all
    then show ?thesis by (simp add: fl_uminus)
  qed
qed

subsection \<open>Representable numbers, the rounding error, evaluation\<close>

lemma fl_exp_le_repr:
  assumes m: "m \<noteq> 0" "\<bar>m\<bar> < 2 ^ 53" and e: "- 1074 \<le> e"
  shows "fl_exp (of_int m * 2 powi e) \<le> e"
proof -
  let ?x = "real_of_int m * 2 powi e"
  have pos: "0 < \<bar>?x\<bar>" using m by simp
  have "\<bar>real_of_int m\<bar> < 2 ^ 53" using m(2)
    by (metis of_int_abs of_int_less_iff of_int_numeral of_int_power)
  then have "\<bar>?x\<bar> < 2 ^ 53 * 2 powi e" by (simp add: abs_mult)
  also have "\<dots> = 2 powi (e + 53)" by (simp add: power_int_add mult.commute)
  finally have lt: "\<bar>?x\<bar> < 2 powi (e + 53)" .
  have "\<lfloor>log 2 \<bar>?x\<bar>\<rfloor> < e + 53"
  proof (rule ccontr)
    assume "\<not> \<lfloor>log 2 \<bar>?x\<bar>\<rfloor> < e + 53"
    then have "e + 53 \<le> \<lfloor>log 2 \<bar>?x\<bar>\<rfloor>" by simp
    then have "(2::real) powi (e + 53) \<le> 2 powi \<lfloor>log 2 \<bar>?x\<bar>\<rfloor>"
      by (intro power_int_increasing) simp_all
    also have "\<dots> \<le> \<bar>?x\<bar>" using pos by (rule floor_log2_le)
    finally show False using lt by simp
  qed
  then show ?thesis using e by (simp add: fl_exp_def)
qed

lemma fl_repr:
  assumes m: "\<bar>m\<bar> < 2 ^ 53" and e: "- 1074 \<le> e"
  shows "fl (of_int m * 2 powi e) = of_int m * 2 powi e"
proof (cases "m = 0")
  case True
  then show ?thesis by (simp add: fl_zero)
next
  case False
  define x where "x = real_of_int m * 2 powi e"
  define f where "f = fl_exp x"
  have le: "f \<le> e" unfolding f_def x_def using False m e by (rule fl_exp_le_repr)
  then obtain k where k: "e = f + int k" by (metis zle_iff_zadd)
  have p: "(2::real) powi e = 2 powi f * 2 ^ k" by (subst k) (simp add: power_int_add)
  have "x / 2 powi f = of_int (m * 2 ^ k)" unfolding x_def p by simp
  then have "rne (x / 2 powi f) = m * 2 ^ k" by (simp only: rne_of_int)
  then have "fl x = of_int (m * 2 ^ k) * 2 powi f" unfolding fl_def f_def by simp
  also have "\<dots> = x" unfolding x_def p by simp
  finally show ?thesis unfolding x_def .
qed

lemma fl_of_int: "\<bar>m\<bar> < 2 ^ 53 \<Longrightarrow> fl (of_int m) = of_int m"
  using fl_repr [of m 0] by simp

lemma fl_err: "\<bar>fl x - x\<bar> \<le> 2 powi fl_exp x / 2"
proof -
  let ?u = "(2::real) powi fl_exp x"
  have u: "0 < ?u" by simp
  have "fl x - x = (of_int (rne (x / ?u)) - x / ?u) * ?u"
    unfolding fl_def using u by (simp add: algebra_simps)
  then have "\<bar>fl x - x\<bar> = \<bar>of_int (rne (x / ?u)) - x / ?u\<bar> * ?u"
    using u by (simp add: abs_mult)
  also have "\<dots> \<le> 1 / 2 * ?u" using rne_err [of "x / ?u"] u by (intro mult_right_mono) simp_all
  finally show ?thesis by simp
qed

lemma fl_exp_le: "x \<noteq> 0 \<Longrightarrow> \<bar>x\<bar> < 2 powi (e + 1) \<Longrightarrow> - 1022 \<le> e \<Longrightarrow> fl_exp x \<le> e - 52"
proof -
  assume x: "x \<noteq> 0" and lt: "\<bar>x\<bar> < 2 powi (e + 1)" and e: "- 1022 \<le> e"
  have pos: "0 < \<bar>x\<bar>" using x by simp
  have "\<lfloor>log 2 \<bar>x\<bar>\<rfloor> < e + 1"
  proof (rule ccontr)
    assume "\<not> \<lfloor>log 2 \<bar>x\<bar>\<rfloor> < e + 1"
    then have "e + 1 \<le> \<lfloor>log 2 \<bar>x\<bar>\<rfloor>" by simp
    then have "(2::real) powi (e + 1) \<le> 2 powi \<lfloor>log 2 \<bar>x\<bar>\<rfloor>"
      by (intro power_int_increasing) simp_all
    also have "\<dots> \<le> \<bar>x\<bar>" using pos by (rule floor_log2_le)
    finally show False using lt by simp
  qed
  then show ?thesis using e by (simp add: fl_exp_def)
qed

lemma fl_err_bound:
  assumes lt: "\<bar>x\<bar> < 2 powi (e + 1)" and e: "- 1022 \<le> e"
  shows "\<bar>fl x - x\<bar> \<le> 2 powi (e - 53)"
proof (cases "x = 0")
  case True
  then show ?thesis by (simp add: fl_zero)
next
  case False
  have "fl_exp x \<le> e - 52" using False lt e by (rule fl_exp_le)
  then have "(2::real) powi fl_exp x \<le> 2 powi (e - 52)" by (intro power_int_increasing) simp_all
  then have "(2::real) powi fl_exp x / 2 \<le> 2 powi (e - 52) / 2" by simp
  also have "\<dots> = 2 powi (e - 53)"
    using power_int_add [of "2::real" "e - 53" 1] by simp
  finally show ?thesis using fl_err [of x] by linarith
qed

lemma fl_exp_eq:
  assumes "2 powi e \<le> \<bar>x\<bar>" "\<bar>x\<bar> < 2 powi (e + 1)"
  shows "fl_exp x = max e (- 1022) - 52"
proof -
  have "0 < \<bar>x\<bar>" using assms(1) two_powi_pos [of e] by linarith
  then have "\<lfloor>log 2 \<bar>x\<bar>\<rfloor> = e"
    using assms powr_real_of_int' [of 2 e] powr_real_of_int' [of 2 "e + 1"]
    by (simp add: floor_log_eq_powr_iff)
  then show ?thesis by (simp add: fl_exp_def)
qed

lemma fl_eval:
  assumes "2 powi e \<le> \<bar>x\<bar>" "\<bar>x\<bar> < 2 powi (e + 1)" "- 1022 \<le> e"
  shows "fl x = of_int (rne (x / 2 powi (e - 52))) * 2 powi (e - 52)"
  using fl_exp_eq [OF assms(1,2)] assms(3) by (simp add: fl_def max_def)


section \<open>The alpha of a chest connection\<close>

lemma py_int_mono: "x \<le> y \<Longrightarrow> py_int x \<le> py_int y"
proof -
  assume xy: "x \<le> y"
  consider "0 \<le> x" | "x < 0" "0 \<le> y" | "y < 0" by linarith
  then show ?thesis
  proof cases
    case 1
    then show ?thesis using xy by (simp add: py_int_def floor_mono)
  next
    case 2
    have "\<lceil>x\<rceil> \<le> 0" using 2 by (simp add: ceiling_le_iff)
    moreover have "0 \<le> \<lfloor>y\<rfloor>" using 2 by simp
    ultimately have "\<lceil>x\<rceil> \<le> \<lfloor>y\<rfloor>" by linarith
    then show ?thesis using 2 by (simp add: py_int_def)
  next
    case 3
    then show ?thesis using xy by (simp add: py_int_def ceiling_mono)
  qed
qed

lemma base_alpha_antimono: "d1 \<le> d2 \<Longrightarrow> base_alpha d2 \<le> base_alpha d1"
proof -
  assume "d1 \<le> d2"
  then have "d1 / 200 \<le> d2 / 200" by simp
  then have "fl (d1 / 200) \<le> fl (d2 / 200)" by (rule fl_mono)
  then have "min (fl (d1 / 200)) 1 \<le> min (fl (d2 / 200)) 1" by simp
  then have "1 - min (fl (d2 / 200)) 1 \<le> 1 - min (fl (d1 / 200)) 1" by simp
  then have "fl (1 - min (fl (d2 / 200)) 1) \<le> fl (1 - min (fl (d1 / 200)) 1)" by (rule fl_mono)
  then have "50 * fl (1 - min (fl (d2 / 200)) 1) \<le> 50 * fl (1 - min (fl (d1 / 200)) 1)" by simp
  then have "fl (50 * fl (1 - min (fl (d2 / 200)) 1)) \<le> fl (50 * fl (1 - min (fl (d1 / 200)) 1))"
    by (rule fl_mono)
  then have "py_int (fl (50 * fl (1 - min (fl (d2 / 200)) 1))) \<le> py_int (fl (50 * fl (1 - min (fl (d1 / 200)) 1)))"
    by (rule py_int_mono)
  then show ?thesis by (simp add: base_alpha_def)
qed

lemma fl_1: "fl 1 = 1" using fl_of_int [of 1] by simp
lemma fl_50: "fl 50 = 50" using fl_of_int [of 50] by simp
lemma fl_200: "fl 200 = 200" using fl_of_int [of 200] by simp

lemma base_alpha_core_range:
  assumes "0 \<le> d"
  shows "0 \<le> fl (50 * fl (1 - min (fl (d / 200)) 1))" "fl (50 * fl (1 - min (fl (d / 200)) 1)) \<le> 50"
proof -
  have q: "0 \<le> fl (d / 200)" using assms by (intro fl_nonneg) simp
  then have m: "0 \<le> min (fl (d / 200)) 1" "min (fl (d / 200)) 1 \<le> 1" by simp_all
  have s0: "0 \<le> fl (1 - min (fl (d / 200)) 1)" using m by (intro fl_nonneg) simp
  have "fl (1 - min (fl (d / 200)) 1) \<le> fl 1" using m by (intro fl_mono) simp
  then have s1: "fl (1 - min (fl (d / 200)) 1) \<le> 1" by (simp add: fl_1)
  show "0 \<le> fl (50 * fl (1 - min (fl (d / 200)) 1))" using s0 by (intro fl_nonneg) simp
  have "fl (50 * fl (1 - min (fl (d / 200)) 1)) \<le> fl 50" using s1 by (intro fl_mono) simp
  then show "fl (50 * fl (1 - min (fl (d / 200)) 1)) \<le> 50" by (simp add: fl_50)
qed

lemma base_alpha_range: "0 \<le> d \<Longrightarrow> 100 \<le> base_alpha d \<and> base_alpha d \<le> 150"
proof -
  assume d: "0 \<le> d"
  let ?p = "fl (50 * fl (1 - min (fl (d / 200)) 1))"
  have p: "0 \<le> ?p" "?p \<le> 50" using base_alpha_core_range [OF d] by simp_all
  have "py_int ?p = \<lfloor>?p\<rfloor>" using p by (simp add: py_int_def)
  moreover have "0 \<le> \<lfloor>?p\<rfloor>" using p by simp
  moreover have "\<lfloor>?p\<rfloor> \<le> 50" using p by (simp add: floor_le_iff)
  ultimately show ?thesis by (simp add: base_alpha_def)
qed

lemma base_alpha_near:
  assumes r: "0 \<le> r" and k0: "0 \<le> k"
    and lo: "of_int k + 1 / 2048 \<le> 50 - r / 4" and hi: "50 - r / 4 \<le> of_int k + 1 - 1 / 2048"
  shows "base_alpha (fl r) = 100 + k"
proof -
  define d where "d = fl r"
  define q where "q = fl (d / 200)"
  define s where "s = fl (1 - q)"
  define p where "p = fl (50 * s)"
  have r200: "r \<le> 200" using lo k0 by simp
  have d0: "0 \<le> d" unfolding d_def using r by (rule fl_nonneg)
  have "fl r \<le> fl 200" using r200 by (rule fl_mono)
  then have d200: "d \<le> 200" by (simp add: d_def fl_200)
  have "\<bar>r\<bar> < 2 powi (7 + 1)" using r r200 by simp
  then have "\<bar>fl r - r\<bar> \<le> 2 powi (7 - 53)" by (rule fl_err_bound) simp
  then have ed: "\<bar>d - r\<bar> \<le> 1 / 2 ^ 46" by (simp add: d_def power_int_minus)
  have q0: "0 \<le> q" unfolding q_def using d0 by (intro fl_nonneg) simp
  have "fl (d / 200) \<le> fl 1" using d200 by (intro fl_mono) simp
  then have q1: "q \<le> 1" by (simp add: q_def fl_1)
  have "\<bar>d / 200\<bar> < 2 powi (0 + 1)" using d0 d200 by simp
  then have "\<bar>fl (d / 200) - d / 200\<bar> \<le> 2 powi (0 - 53)" by (rule fl_err_bound) simp
  then have eq: "\<bar>q - d / 200\<bar> \<le> 1 / 2 ^ 53" by (simp add: q_def power_int_minus)
  have mq: "min q 1 = q" using q1 by simp
  have s0: "0 \<le> s" unfolding s_def using q1 by (intro fl_nonneg) simp
  have "fl (1 - q) \<le> fl 1" using q0 by (intro fl_mono) simp
  then have s1: "s \<le> 1" by (simp add: s_def fl_1)
  have "\<bar>1 - q\<bar> < 2 powi (0 + 1)" using q0 q1 by simp
  then have "\<bar>fl (1 - q) - (1 - q)\<bar> \<le> 2 powi (0 - 53)" by (rule fl_err_bound) simp
  then have es: "\<bar>s - (1 - q)\<bar> \<le> 1 / 2 ^ 53" by (simp add: s_def power_int_minus)
  have p0: "0 \<le> p" unfolding p_def using s0 by (intro fl_nonneg) simp
  have "\<bar>50 * s\<bar> < 2 powi (5 + 1)" using s0 s1 by simp
  then have "\<bar>fl (50 * s) - 50 * s\<bar> \<le> 2 powi (5 - 53)" by (rule fl_err_bound) simp
  then have ep: "\<bar>p - 50 * s\<bar> \<le> 1 / 2 ^ 48" by (simp add: p_def power_int_minus)
  have c: "(1::real) / 2 ^ 46 \<le> 1 / 1048576" "(1::real) / 2 ^ 53 \<le> 1 / 1048576"
    "(1::real) / 2 ^ 48 \<le> 1 / 1048576" by simp_all
  have "\<bar>p - (50 - r / 4)\<bar> \<le> 1 / 4096" using ed eq es ep c by linarith
  then have "of_int k \<le> p" "p < of_int k + 1" using lo hi by linarith+
  then have "\<lfloor>p\<rfloor> = k" by (rule floor_unique)
  then have "py_int p = k" using p0 by (simp add: py_int_def)
  then show ?thesis by (simp add: base_alpha_def p_def s_def q_def d_def mq [unfolded q_def d_def])
qed

lemma exact_alpha_near:
  assumes r: "0 \<le> r" and k0: "0 \<le> k"
    and lo: "of_int k + 1 / 2048 \<le> 50 - r / 4" and hi: "50 - r / 4 \<le> of_int k + 1 - 1 / 2048"
  shows "\<lfloor>50 * (1 - min (r / 200) 1 :: real)\<rfloor> = k"
proof -
  have r200: "r \<le> 200" using lo k0 by simp
  then have "min (r / 200) 1 = r / 200" by simp
  then have "50 * (1 - min (r / 200) 1) = 50 - r / 4" by simp
  moreover have "of_int k \<le> 50 - r / 4" "50 - r / 4 < of_int k + 1" using lo hi by linarith+
  ultimately show ?thesis by (simp add: floor_unique)
qed

lemma f_overflow_small: "\<bar>x\<bar> \<le> 2 ^ 53 \<Longrightarrow> \<not> f_overflow x"
proof -
  assume a: "\<bar>x\<bar> \<le> 2 ^ 53"
  have r: "fl (2 ^ 53) = (2::real) ^ 53" using fl_repr [of 1 53] by simp
  have "x \<le> 2 ^ 53" using a by linarith
  then have "fl x \<le> fl (2 ^ 53)" by (rule fl_mono)
  then have u: "fl x \<le> 2 ^ 53" by (simp only: r)
  have "- (2 ^ 53) \<le> x" using a by linarith
  then have "fl (- (2 ^ 53)) \<le> fl x" by (rule fl_mono)
  then have l: "- (2 ^ 53) \<le> fl x" by (simp only: fl_uminus r)
  have "\<bar>fl x\<bar> \<le> 2 ^ 53" using u l by linarith
  moreover have "(2::real) ^ 53 < 2 ^ 1024" by (rule power_strict_increasing) simp_all
  ultimately show ?thesis unfolding f_overflow_def by linarith
qed

lemma py_float_small: "\<bar>n\<bar> < 2 ^ 53 \<Longrightarrow> py_float n = Inr (of_int n)"
proof -
  assume a: "\<bar>n\<bar> < 2 ^ 53"
  then have "\<bar>real_of_int n\<bar> \<le> 2 ^ 53"
    by (metis less_imp_le of_int_abs of_int_le_iff of_int_numeral of_int_power)
  then have "\<not> f_overflow (of_int n)" by (rule f_overflow_small)
  then show ?thesis using a by (simp add: py_float_def fl_of_int)
qed

lemma math_sqrt_small: "0 \<le> n \<Longrightarrow> n < 2 ^ 53 \<Longrightarrow> math_sqrt n = Inr (fl (sqrt (of_int n)))"
  by (simp add: math_sqrt_def py_float_small bind_res_def)

lemma conn_alpha:
  assumes k: "0 \<le> k"
    and lo: "(4 * (49 - real_of_int k) + 1 / 512)\<^sup>2 \<le> x"
    and hi: "x \<le> (4 * (50 - real_of_int k) - 1 / 512)\<^sup>2" and k49: "k \<le> 49"
  shows "base_alpha (fl (sqrt x)) = 100 + k" "\<lfloor>50 * (1 - min (sqrt x / 200) 1)\<rfloor> = k"
proof -
  have a: "0 \<le> 4 * (49 - real_of_int k) + 1 / 512" using k49 by simp
  have b: "0 \<le> 4 * (50 - real_of_int k) - 1 / 512" using k49 by simp
  have l: "4 * (49 - real_of_int k) + 1 / 512 \<le> sqrt x" using lo by (rule real_le_rsqrt)
  then have hi': "50 - sqrt x / 4 \<le> of_int k + 1 - 1 / 2048" by argo
  have "0 \<le> sqrt x" using l a by argo
  have "sqrt x \<le> 4 * (50 - real_of_int k) - 1 / 512" using b hi by (rule real_le_lsqrt)
  then have lo': "of_int k + 1 / 2048 \<le> 50 - sqrt x / 4" "0 \<le> sqrt x" using \<open>0 \<le> sqrt x\<close> by argo+
  show "base_alpha (fl (sqrt x)) = 100 + k" using lo'(2) k lo'(1) hi' by (rule base_alpha_near)
  show "\<lfloor>50 * (1 - min (sqrt x / 200) 1)\<rfloor> = k" using lo'(2) k lo'(1) hi' by (rule exact_alpha_near)
qed

lemma ba_3250: "base_alpha (fl (sqrt 3250)) = 135" "\<lfloor>50 * (1 - min (sqrt 3250 / 200) 1)\<rfloor> = (35::int)"
  using conn_alpha [of 35 3250] by (simp_all add: power2_eq_square)


lemma fl_3_10: "fl (3 / 10) = 5404319552844595 / 2 ^ 54"
  by (subst fl_eval [where e = "- 2"]) (simp_all add: power_int_minus rne_def Let_def)

lemma fl_1m: "fl (1 - 5404319552844595 / 2 ^ 54) = 6305039478318694 / 2 ^ 53"
  by (subst fl_eval [where e = "- 1"]) (simp_all add: power_int_minus rne_def Let_def)

lemma fl_50s: "fl (50 * (6305039478318694 / 2 ^ 53)) = 35"
  by (subst fl_eval [where e = "5"]) (simp_all add: power_int_minus rne_def Let_def)

lemma base_alpha_60: "base_alpha 60 = 135"
proof -
  have m: "min (5404319552844595 / 2 ^ 54) (1::real) = 5404319552844595 / 2 ^ 54" by simp
  have "fl (60 / 200) = 5404319552844595 / 2 ^ 54" using fl_3_10 by simp
  then have "fl (50 * fl (1 - min (fl (60 / 200)) 1)) = 35"
    by (simp only: m fl_1m fl_50s)
  then show ?thesis by (simp add: base_alpha_def py_int_def)
qed

lemma sqrt_3600: "sqrt 3600 = 60"
  using real_sqrt_abs [of 60] by simp

lemma ba_3600: "base_alpha (fl (sqrt 3600)) = 135" "\<lfloor>50 * (1 - min (sqrt 3600 / 200) 1)\<rfloor> = (35::int)"
  using fl_of_int [of 60] by (simp_all add: sqrt_3600 base_alpha_60)

lemma ba_1450: "base_alpha (fl (sqrt 1450)) = 140" "spec_alpha (sqrt 1450) = 140"
  using conn_alpha [of 40 1450] by (simp_all add: power2_eq_square spec_alpha_def)
lemma ba_2050: "base_alpha (fl (sqrt 2050)) = 138" "spec_alpha (sqrt 2050) = 138"
  using conn_alpha [of 38 2050] by (simp_all add: power2_eq_square spec_alpha_def)
lemma ba_2125: "base_alpha (fl (sqrt 2125)) = 138" "spec_alpha (sqrt 2125) = 138"
  using conn_alpha [of 38 2125] by (simp_all add: power2_eq_square spec_alpha_def)
lemma ba_2225: "base_alpha (fl (sqrt 2225)) = 138" "spec_alpha (sqrt 2225) = 138"
  using conn_alpha [of 38 2225] by (simp_all add: power2_eq_square spec_alpha_def)
lemma ba_2500: "base_alpha (fl (sqrt 2500)) = 137" "spec_alpha (sqrt 2500) = 137"
  using conn_alpha [of 37 2500] by (simp_all add: power2_eq_square spec_alpha_def)
lemma ba_2725: "base_alpha (fl (sqrt 2725)) = 136" "spec_alpha (sqrt 2725) = 136"
  using conn_alpha [of 36 2725] by (simp_all add: power2_eq_square spec_alpha_def)
lemma ba_3125: "base_alpha (fl (sqrt 3125)) = 136" "spec_alpha (sqrt 3125) = 136"
  using conn_alpha [of 36 3125] by (simp_all add: power2_eq_square spec_alpha_def)
lemma ba_3400: "base_alpha (fl (sqrt 3400)) = 135" "spec_alpha (sqrt 3400) = 135"
  using conn_alpha [of 35 3400] by (simp_all add: power2_eq_square spec_alpha_def)
lemma ba_3825: "base_alpha (fl (sqrt 3825)) = 134" "spec_alpha (sqrt 3825) = 134"
  using conn_alpha [of 34 3825] by (simp_all add: power2_eq_square spec_alpha_def)
lemma ba_3925: "base_alpha (fl (sqrt 3925)) = 134" "spec_alpha (sqrt 3925) = 134"
  using conn_alpha [of 34 3925] by (simp_all add: power2_eq_square spec_alpha_def)
lemma ba_4225: "base_alpha (fl (sqrt 4225)) = 133" "spec_alpha (sqrt 4225) = 133"
  using conn_alpha [of 33 4225] by (simp_all add: power2_eq_square spec_alpha_def)
lemma ba_4500: "base_alpha (fl (sqrt 4500)) = 133" "spec_alpha (sqrt 4500) = 133"
  using conn_alpha [of 33 4500] by (simp_all add: power2_eq_square spec_alpha_def)

lemma ba_3250': "base_alpha (fl (sqrt 3250)) = 135" "spec_alpha (sqrt 3250) = 135"
  using ba_3250 by (simp_all add: spec_alpha_def)
lemma ba_3600': "base_alpha (fl (sqrt 3600)) = 135" "spec_alpha (sqrt 3600) = 135"
  using ba_3600 by (simp_all add: spec_alpha_def del: real_sqrt_abs)

lemmas ba_all = ba_1450 ba_2050 ba_2125 ba_2225 ba_2500 ba_2725 ba_3125 ba_3250' ba_3400 ba_3600'
  ba_3825 ba_3925 ba_4225 ba_4500
lemmas ba_simps = ba_all ba_3600' [simplified] ba_2500 [simplified] ba_4225 [simplified]

lemmas geom_defs = CX_def CY_def CENTER_def SIZE_def OWL_Y_def chest_top_def


lemma chest_conn_spec_alpha: "\<forall>(a, b) \<in> set conns.
   chest_conn (a, b) =
     Inr (conn_passes (fst (nodes ! nat a)) (snd (nodes ! nat a)) (fst (nodes ! nat b)) (snd (nodes ! nat b))
            (spec_alpha (euclid (nodes ! nat a) (nodes ! nat b))))"
  unfolding conns_def
  by (simp add: chest_conn_def py_get_def nodes_def geom_defs bind_res_def conn_dist_def math_sqrt_small ba_simps euclid_def)

lemma chest_conn_base_alpha:
  "\<forall>(a, b) \<in> set conns. \<exists>dst.
     conn_dist (nodes ! nat a) (nodes ! nat b) = Inr dst \<and> 0 \<le> dst \<and>
     chest_conn (a, b) =
       Inr (conn_passes (fst (nodes ! nat a)) (snd (nodes ! nat a))
              (fst (nodes ! nat b)) (snd (nodes ! nat b)) (base_alpha dst))"
  unfolding conns_def
  by (simp add: chest_conn_def py_get_def nodes_def geom_defs bind_res_def conn_dist_def
      math_sqrt_small fl_nonneg)

lemma conn_passes_alphas:
  "map op_alpha (conn_passes x1 y1 x2 y2 ba) = [ba div 3, ba div 2, ba, ba div 2]"
  by (simp add: conn_passes_def line_def op_alpha_def)

lemma conn_passes_widths: "map op_width (conn_passes x1 y1 x2 y2 ba) = [7, 4, 2, 1]"
  by (simp add: conn_passes_def line_def)

lemma conn_passes_points:
  "map op_points (conn_passes x1 y1 x2 y2 ba) = replicate 4 [(x1, y1), (x2, y2)]"
  by (simp add: conn_passes_def line_def numeral_eq_Suc)

lemma h_conn_passes_alphas: "map op_alpha (h_conn_passes x1 y1 x2 y2) = [30, 70, 35]"
  by (simp add: h_conn_passes_def line_def op_alpha_def)

lemma h_conn_passes_widths: "map op_width (h_conn_passes x1 y1 x2 y2) = [5, 2, 1]"
  by (simp add: h_conn_passes_def line_def)

lemma h_conn_passes_points:
  "map op_points (h_conn_passes x1 y1 x2 y2) = replicate 3 [(x1, y1), (x2, y2)]"
  by (simp add: h_conn_passes_def line_def numeral_eq_Suc)

lemma head_conn_eval:
  "\<forall>(a, b) \<in> set h_conns.
     head_conn (a, b) =
       Inr (h_conn_passes (fst (h_nodes ! nat a)) (snd (h_nodes ! nat a))
              (fst (h_nodes ! nat b)) (snd (h_nodes ! nat b)))"
  unfolding h_conns_def
  by (simp add: head_conn_def py_get_def h_nodes_def bind_res_def)


text \<open>
  C1: for every chest connection \<open>(a, b)\<close> the four lines are drawn with the base alpha
  \<open>100 + \<lfloor>50 * (1 - min (dist / 200) 1)\<rfloor>\<close>, where \<open>dist\<close> is the exact Euclidean distance
  of the nodes \<open>a\<close> and \<open>b\<close> (the float computation of the script reaches this value for each
  of the 36 connections); and the base alpha never grows with the distance, both as the
  script computes it from the float distance and as the formula gives it.
\<close>
theorem chest_alpha_formula:
  "(\<forall>(a, b) \<in> set conns.
      chest_conn (a, b) =
        Inr (conn_passes (fst (nodes ! nat a)) (snd (nodes ! nat a))
               (fst (nodes ! nat b)) (snd (nodes ! nat b))
               (spec_alpha (euclid (nodes ! nat a) (nodes ! nat b))))) \<and>
   (\<forall>d1 d2. d1 \<le> d2 \<longrightarrow> base_alpha d2 \<le> base_alpha d1) \<and>
   (\<forall>d1 d2. d1 \<le> d2 \<longrightarrow> spec_alpha d2 \<le> spec_alpha d1)"
proof (intro conjI allI impI)
  show "\<forall>(a, b) \<in> set conns.
      chest_conn (a, b) =
        Inr (conn_passes (fst (nodes ! nat a)) (snd (nodes ! nat a))
               (fst (nodes ! nat b)) (snd (nodes ! nat b))
               (spec_alpha (euclid (nodes ! nat a) (nodes ! nat b))))"
    by (rule chest_conn_spec_alpha)
next
  fix d1 d2 :: real assume "d1 \<le> d2"
  then show "base_alpha d2 \<le> base_alpha d1" by (rule base_alpha_antimono)
next
  fix d1 d2 :: real assume "d1 \<le> d2"
  then have "50 * (1 - min (d2 / 200) 1) \<le> 50 * (1 - min (d1 / 200) 1)" by simp
  then show "spec_alpha d2 \<le> spec_alpha d1" unfolding spec_alpha_def by (simp add: floor_mono)
qed

theorem chest_alpha_formula_witness:
  "(0, 3) \<in> set conns \<and> euclid (nodes ! nat 0) (nodes ! nat 3) = 60 \<and> spec_alpha 60 = 135 \<and>
   chest_conn (0, 3) = Inr (conn_passes 512 512 512 572 135) \<and>
   (50::real) \<le> 60 \<and> base_alpha 60 \<le> base_alpha 50 \<and> spec_alpha 60 \<le> spec_alpha 50"
proof -
  have m: "(0, 3) \<in> set conns" by (simp add: conns_def)
  have e: "euclid (nodes ! nat 0) (nodes ! nat 3) = 60"
    by (simp add: euclid_def nodes_def geom_defs)
  have s: "spec_alpha 60 = 135" by (simp add: spec_alpha_def)
  have n: "nodes ! 0 = (512, 512)" "nodes ! 3 = (512, 572)" by (simp_all add: nodes_def geom_defs)
  from chest_alpha_formula m
  have "chest_conn (0, 3) =
        Inr (conn_passes (fst (nodes ! nat 0)) (snd (nodes ! nat 0))
               (fst (nodes ! nat 3)) (snd (nodes ! nat 3))
               (spec_alpha (euclid (nodes ! nat 0) (nodes ! nat 3))))" by fast
  then have c: "chest_conn (0, 3) = Inr (conn_passes 512 512 512 572 135)"
    using e s by (simp add: n)
  have "base_alpha 60 \<le> base_alpha 50" "spec_alpha 60 \<le> spec_alpha 50"
    using chest_alpha_formula by simp_all
  then show ?thesis using m e s c by simp
qed

text \<open>
  C10: for every chest connection the distance is computed without error, the base alpha
  lies in the inclusive range from 100 to 150, and the alphas of the four passes
  (\<^verbatim>\<open>base_alpha // 3\<close>, \<^verbatim>\<open>base_alpha // 2\<close>, \<^verbatim>\<open>base_alpha\<close>, \<^verbatim>\<open>base_alpha // 2\<close>) are 8-bit
  channel values, none above 150.
\<close>
theorem chest_alpha_in_range:
  "\<forall>(a, b) \<in> set conns. \<exists>dst ops.
     conn_dist (nodes ! nat a) (nodes ! nat b) = Inr dst \<and>
     100 \<le> base_alpha dst \<and> base_alpha dst \<le> 150 \<and>
     chest_conn (a, b) = Inr ops \<and>
     map op_alpha ops = [base_alpha dst div 3, base_alpha dst div 2, base_alpha dst, base_alpha dst div 2] \<and>
     list_all (\<lambda>d. 0 \<le> op_alpha d \<and> op_alpha d \<le> 150 \<and> op_alpha d \<le> 255) ops"
proof (clarify)
  fix a b assume "(a, b) \<in> set conns"
  with chest_conn_base_alpha obtain dst where
    d: "conn_dist (nodes ! nat a) (nodes ! nat b) = Inr dst" "0 \<le> dst"
    and c: "chest_conn (a, b) =
       Inr (conn_passes (fst (nodes ! nat a)) (snd (nodes ! nat a))
              (fst (nodes ! nat b)) (snd (nodes ! nat b)) (base_alpha dst))"
    by blast
  have r: "100 \<le> base_alpha dst" "base_alpha dst \<le> 150" using base_alpha_range [OF d(2)] by simp_all
  let ?ops = "conn_passes (fst (nodes ! nat a)) (snd (nodes ! nat a))
              (fst (nodes ! nat b)) (snd (nodes ! nat b)) (base_alpha dst)"
  have "list_all (\<lambda>d. 0 \<le> op_alpha d \<and> op_alpha d \<le> 150 \<and> op_alpha d \<le> 255) ?ops"
    using r by (simp add: conn_passes_def line_def op_alpha_def) arith
  then show "\<exists>dst ops.
     conn_dist (nodes ! nat a) (nodes ! nat b) = Inr dst \<and>
     100 \<le> base_alpha dst \<and> base_alpha dst \<le> 150 \<and>
     chest_conn (a, b) = Inr ops \<and>
     map op_alpha ops = [base_alpha dst div 3, base_alpha dst div 2, base_alpha dst, base_alpha dst div 2] \<and>
     list_all (\<lambda>d. 0 \<le> op_alpha d \<and> op_alpha d \<le> 150 \<and> op_alpha d \<le> 255) ops"
    using d r c conn_passes_alphas by blast
qed

theorem chest_alpha_in_range_witness:
  "(14, 15) \<in> set conns \<and>
   (\<exists>dst ops.
     conn_dist (nodes ! nat 14) (nodes ! nat 15) = Inr dst \<and>
     100 \<le> base_alpha dst \<and> base_alpha dst \<le> 150 \<and>
     chest_conn (14, 15) = Inr ops \<and>
     map op_alpha ops = [base_alpha dst div 3, base_alpha dst div 2, base_alpha dst, base_alpha dst div 2] \<and>
     list_all (\<lambda>d. 0 \<le> op_alpha d \<and> op_alpha d \<le> 150 \<and> op_alpha d \<le> 255) ops)"
proof -
  have m: "(14, 15) \<in> set conns" by (simp add: conns_def)
  show ?thesis using m chest_alpha_in_range by fast
qed


text \<open>
  The agreement of the script's float arithmetic with the exact formula is a property of the
  distances that occur, not of every distance: at the distance 180 the script computes 104
  where the formula gives 105 (\<open>1 - 0.9\<close> rounds below one tenth).
\<close>

lemma base_alpha_180: "base_alpha 180 = 104 \<and> spec_alpha 180 = 105"
proof -
  have q: "fl (180 / 200) = 8106479329266893 / 2 ^ 53"
    by (subst fl_eval [where e = "- 1"]) (simp_all add: power_int_minus rne_def Let_def)
  have m: "min (8106479329266893 / 2 ^ 53) (1::real) = 8106479329266893 / 2 ^ 53" by simp
  have s: "fl (1 - 8106479329266893 / 2 ^ 53) = 900719925474099 / 2 ^ 53"
    by (subst fl_eval [where e = "- 4"]) (simp_all add: power_int_minus rne_def Let_def)
  have p: "fl (50 * (900719925474099 / 2 ^ 53)) = 5629499534213119 / 2 ^ 50"
    by (subst fl_eval [where e = "2"]) (simp_all add: power_int_minus rne_def Let_def)
  have "fl (50 * fl (1 - min (fl (180 / 200)) 1)) = 5629499534213119 / 2 ^ 50"
    by (simp only: q m s p)
  then have "base_alpha 180 = 100 + py_int (5629499534213119 / 2 ^ 50)"
    by (simp only: base_alpha_def)
  then have "base_alpha 180 = 104" by (simp add: py_int_def)
  moreover have "spec_alpha 180 = 105" by (simp add: spec_alpha_def)
  ultimately show ?thesis by simp
qed

section \<open>The passes of a glowing line\<close>

lemma aa_line_eval:
  "aa_line x1 y1 x2 y2 [r, g, b, a] w =
     Inr [Line [(x1, y1), (x2, y2)] [r, g, b, max 10 (a div 4)] (w + 3),
          Line [(x1, y1), (x2, y2)] [r, g, b, a] w]"
  by (simp add: aa_line_def py_get_def bind_res_def)

text \<open>
  C3, as stated, fails: the alpha does not increase from every pass to the next. The head
  connection \<open>(0, 1)\<close> is drawn with the alphas 30, 70, 35 and the chest connection \<open>(0, 3)\<close>
  with 45, 67, 135, 67: the last pass (the bright core) has a lower alpha than the pass
  before it. Besides, \<^verbatim>\<open>aa_line\<close> draws two passes, not three or four.
\<close>
theorem glow_alpha_not_increasing:
  "(0, 1) \<in> set h_conns \<and>
   head_conn (0, 1) = Inr (h_conn_passes 512 217 477 232) \<and>
   map op_alpha (h_conn_passes 512 217 477 232) = [30, 70, 35] \<and>
   \<not> sorted_wrt (\<lambda>x y. x \<le> y) (map op_alpha (h_conn_passes 512 217 477 232)) \<and>
   (0, 3) \<in> set conns \<and>
   chest_conn (0, 3) = Inr (conn_passes 512 512 512 572 135) \<and>
   map op_alpha (conn_passes 512 512 512 572 135) = [45, 67, 135, 67] \<and>
   \<not> sorted_wrt (\<lambda>x y. x \<le> y) (map op_alpha (conn_passes 512 512 512 572 135)) \<and>
   length (projr (aa_line 0 0 10 10 GOLD 2)) = 2"
proof -
  have h: "head_conn (0, 1) = Inr (h_conn_passes 512 217 477 232)"
    by (simp add: head_conn_def py_get_def h_nodes_def bind_res_def HEAD_Y_def geom_defs)
  have m: "(0, 3) \<in> set conns" by (simp add: conns_def)
  have n: "nodes ! 0 = (512, 512)" "nodes ! 3 = (512, 572)" by (simp_all add: nodes_def geom_defs)
  have e: "spec_alpha (euclid (512, 512) (512, 572)) = 135"
    by (simp add: euclid_def ba_simps)
  from chest_conn_spec_alpha m
  have "chest_conn (0, 3) =
        Inr (conn_passes (fst (nodes ! nat 0)) (snd (nodes ! nat 0))
               (fst (nodes ! nat 3)) (snd (nodes ! nat 3))
               (spec_alpha (euclid (nodes ! nat 0) (nodes ! nat 3))))" by fast
  then have c: "chest_conn (0, 3) = Inr (conn_passes 512 512 512 572 135)"
    using e by (simp add: n)
  show ?thesis
    by (simp add: h c m h_conns_def h_conn_passes_alphas conn_passes_alphas aa_line_eval GOLD_def)
qed

text \<open>
  C3, amended: every chest connection is drawn in 4 passes and every head connection in 3
  passes over the same segment, with strictly decreasing stroke widths (7, 4, 2, 1 and
  5, 2, 1). The alpha increases from pass to pass up to the main line (the third chest
  pass, the second head pass); the last pass, the bright core, has a lower alpha than the
  main line (\<^verbatim>\<open>base_alpha // 2\<close> against \<^verbatim>\<open>base_alpha\<close>, 35 against 70). \<^verbatim>\<open>aa_line\<close> draws 2
  passes over the same segment, of widths \<open>w + 3\<close> and \<open>w\<close> and alphas \<open>max 10 (a div 4)\<close> and \<open>a\<close>.
\<close>
theorem glow_passes:
  "(\<forall>(a, b) \<in> set conns. \<exists>ops.
      chest_conn (a, b) = Inr ops \<and> length ops = 4 \<and>
      map op_points ops = replicate 4 [nodes ! nat a, nodes ! nat b] \<and>
      map op_width ops = [7, 4, 2, 1] \<and>
      op_alpha (ops ! 0) < op_alpha (ops ! 1) \<and> op_alpha (ops ! 1) < op_alpha (ops ! 2) \<and>
      op_alpha (ops ! 3) < op_alpha (ops ! 2)) \<and>
   (\<forall>(a, b) \<in> set h_conns. \<exists>ops.
      head_conn (a, b) = Inr ops \<and> length ops = 3 \<and>
      map op_points ops = replicate 3 [h_nodes ! nat a, h_nodes ! nat b] \<and>
      map op_width ops = [5, 2, 1] \<and> map op_alpha ops = [30, 70, 35]) \<and>
   (\<forall>x1 y1 x2 y2 r g b a w. \<exists>ops.
      aa_line x1 y1 x2 y2 [r, g, b, a] w = Inr ops \<and> length ops = 2 \<and>
      map op_points ops = replicate 2 [(x1, y1), (x2, y2)] \<and>
      map op_width ops = [w + 3, w] \<and> map op_alpha ops = [max 10 (a div 4), a])"
proof (intro conjI)
  show "\<forall>(a, b) \<in> set conns. \<exists>ops.
      chest_conn (a, b) = Inr ops \<and> length ops = 4 \<and>
      map op_points ops = replicate 4 [nodes ! nat a, nodes ! nat b] \<and>
      map op_width ops = [7, 4, 2, 1] \<and>
      op_alpha (ops ! 0) < op_alpha (ops ! 1) \<and> op_alpha (ops ! 1) < op_alpha (ops ! 2) \<and>
      op_alpha (ops ! 3) < op_alpha (ops ! 2)"
  proof (clarify)
    fix a b assume "(a, b) \<in> set conns"
    with chest_conn_base_alpha obtain dst where
      d: "0 \<le> dst"
      and c: "chest_conn (a, b) =
         Inr (conn_passes (fst (nodes ! nat a)) (snd (nodes ! nat a))
                (fst (nodes ! nat b)) (snd (nodes ! nat b)) (base_alpha dst))"
      by blast
    have r: "100 \<le> base_alpha dst" "base_alpha dst \<le> 150" using base_alpha_range [OF d] by simp_all
    let ?ops = "conn_passes (fst (nodes ! nat a)) (snd (nodes ! nat a))
                (fst (nodes ! nat b)) (snd (nodes ! nat b)) (base_alpha dst)"
    have 1: "length ?ops = 4" by (simp add: conn_passes_def)
    have 2: "map op_points ?ops = replicate 4 [nodes ! nat a, nodes ! nat b]"
      by (simp add: conn_passes_points)
    have 3: "map op_width ?ops = [7, 4, 2, 1]" by (rule conn_passes_widths)
    have 4: "op_alpha (?ops ! 0) < op_alpha (?ops ! 1) \<and> op_alpha (?ops ! 1) < op_alpha (?ops ! 2) \<and>
      op_alpha (?ops ! 3) < op_alpha (?ops ! 2)"
      using r by (simp add: conn_passes_def line_def op_alpha_def) arith
    show "\<exists>ops.
      chest_conn (a, b) = Inr ops \<and> length ops = 4 \<and>
      map op_points ops = replicate 4 [nodes ! nat a, nodes ! nat b] \<and>
      map op_width ops = [7, 4, 2, 1] \<and>
      op_alpha (ops ! 0) < op_alpha (ops ! 1) \<and> op_alpha (ops ! 1) < op_alpha (ops ! 2) \<and>
      op_alpha (ops ! 3) < op_alpha (ops ! 2)"
      using c 1 2 3 4 by - (rule exI [of _ ?ops], simp)
  qed
next
  show "\<forall>(a, b) \<in> set h_conns. \<exists>ops.
      head_conn (a, b) = Inr ops \<and> length ops = 3 \<and>
      map op_points ops = replicate 3 [h_nodes ! nat a, h_nodes ! nat b] \<and>
      map op_width ops = [5, 2, 1] \<and> map op_alpha ops = [30, 70, 35]"
  proof (clarify)
    fix a b assume "(a, b) \<in> set h_conns"
    with head_conn_eval have c: "head_conn (a, b) =
       Inr (h_conn_passes (fst (h_nodes ! nat a)) (snd (h_nodes ! nat a))
              (fst (h_nodes ! nat b)) (snd (h_nodes ! nat b)))" by blast
    let ?ops = "h_conn_passes (fst (h_nodes ! nat a)) (snd (h_nodes ! nat a))
              (fst (h_nodes ! nat b)) (snd (h_nodes ! nat b))"
    have 1: "length ?ops = 3" by (simp add: h_conn_passes_def)
    have 2: "map op_points ?ops = replicate 3 [h_nodes ! nat a, h_nodes ! nat b]"
      by (simp add: h_conn_passes_points)
    show "\<exists>ops.
      head_conn (a, b) = Inr ops \<and> length ops = 3 \<and>
      map op_points ops = replicate 3 [h_nodes ! nat a, h_nodes ! nat b] \<and>
      map op_width ops = [5, 2, 1] \<and> map op_alpha ops = [30, 70, 35]"
      using c 1 2 h_conn_passes_widths h_conn_passes_alphas by - (rule exI [of _ ?ops], simp)
  qed
next
  show "\<forall>x1 y1 x2 y2 r g b a w. \<exists>ops.
      aa_line x1 y1 x2 y2 [r, g, b, a] w = Inr ops \<and> length ops = 2 \<and>
      map op_points ops = replicate 2 [(x1, y1), (x2, y2)] \<and>
      map op_width ops = [w + 3, w] \<and> map op_alpha ops = [max 10 (a div 4), a]"
    by (simp add: aa_line_eval op_alpha_def numeral_eq_Suc)
qed

theorem glow_passes_witness:
  "(9, 14) \<in> set conns \<and>
   (\<exists>ops. chest_conn (9, 14) = Inr ops \<and> length ops = 4 \<and>
      map op_points ops = replicate 4 [nodes ! nat 9, nodes ! nat 14] \<and>
      map op_width ops = [7, 4, 2, 1] \<and>
      op_alpha (ops ! 0) < op_alpha (ops ! 1) \<and> op_alpha (ops ! 1) < op_alpha (ops ! 2) \<and>
      op_alpha (ops ! 3) < op_alpha (ops ! 2)) \<and>
   (4, 7) \<in> set h_conns \<and>
   (\<exists>ops. head_conn (4, 7) = Inr ops \<and> length ops = 3 \<and>
      map op_points ops = replicate 3 [h_nodes ! nat 4, h_nodes ! nat 7] \<and>
      map op_width ops = [5, 2, 1] \<and> map op_alpha ops = [30, 70, 35])"
proof -
  have m: "(9, 14) \<in> set conns" "(4, 7) \<in> set h_conns" by (simp_all add: conns_def h_conns_def)
  note a = bspec [OF glow_passes [THEN conjunct1] m(1), unfolded prod.case]
  note b = bspec [OF glow_passes [THEN conjunct2, THEN conjunct1] m(2), unfolded prod.case]
  show ?thesis by (intro conjI) (rule m a b)+
qed

section \<open>Colour interpolation\<close>

lemma mapM_res_Inr: "(\<And>x. x \<in> set xs \<Longrightarrow> f x = Inr (g x)) \<Longrightarrow> mapM_res f xs = Inr (map g xs)"
  by (induction xs) simp_all

lemma py_get_nat: "i < length xs \<Longrightarrow> py_get xs (int i) = Inr (xs ! i)"
  by (simp add: py_get_def)

lemma lerp_by_channel:
  assumes len: "length c1 = length c2"
    and ch: "\<And>i. i < length c1 \<Longrightarrow> lerp_channel (c1 ! i) (c2 ! i) t = Inr (g i)"
  shows "lerp c1 c2 t = Inr (map g [0..<length c1])"
  unfolding lerp_def
proof (rule mapM_res_Inr)
  fix i assume "i \<in> set [0..<length c1]"
  then have i: "i < length c1" by simp
  then have "py_get c2 (int i) = Inr (c2 ! i)" using len by (simp add: py_get_nat)
  then show "bind_res (py_get c2 (int i)) (\<lambda>b. lerp_channel (c1 ! i) b t) = Inr (g i)"
    using ch [OF i] by (simp add: bind_res_def)
qed

lemma py_int_of_int: "py_int (of_int a) = a"
  by (simp add: py_int_def)

lemma of_int_abs_bound: "\<bar>n\<bar> < 2 ^ 53 \<Longrightarrow> \<bar>real_of_int n\<bar> \<le> 2 ^ 53"
  by (metis less_imp_le of_int_abs of_int_le_iff of_int_numeral of_int_power)

lemma lerp_channel_float_0:
  assumes "\<bar>a\<bar> < 2 ^ 52" "\<bar>b\<bar> < 2 ^ 52"
  shows "lerp_channel a b (PyFloat 0) = Inr a"
proof -
  have d: "\<bar>b - a\<bar> < 2 ^ 53" using assms by simp
  have a: "\<bar>a\<bar> < 2 ^ 53" using assms by simp
  have o0: "\<not> f_overflow 0" by (rule f_overflow_small) simp
  have oa: "\<not> f_overflow (real_of_int a)" using a by (intro f_overflow_small of_int_abs_bound)
  show ?thesis
    using oa o0 by (simp add: lerp_channel_def py_float_small [OF d] py_float_small [OF a]
        bind_res_def fl_zero fl_of_int [OF a] py_int_of_int)
qed

lemma lerp_channel_float_1:
  assumes "\<bar>a\<bar> < 2 ^ 52" "\<bar>b\<bar> < 2 ^ 52"
  shows "lerp_channel a b (PyFloat 1) = Inr b"
proof -
  have d: "\<bar>b - a\<bar> < 2 ^ 53" using assms by simp
  have a: "\<bar>a\<bar> < 2 ^ 53" using assms by simp
  have b: "\<bar>b\<bar> < 2 ^ 53" using assms by simp
  have od: "\<not> f_overflow (real_of_int (b - a))" using d by (intro f_overflow_small of_int_abs_bound)
  have ob: "\<not> f_overflow (real_of_int b)" using b by (intro f_overflow_small of_int_abs_bound)
  have fd: "fl (real_of_int b - real_of_int a) = real_of_int b - real_of_int a"
    using fl_of_int [OF d] by simp
  have od': "\<not> f_overflow (real_of_int b - real_of_int a)" using od by simp
  show ?thesis
    using od' ob by (simp add: lerp_channel_def py_float_small [OF d] py_float_small [OF a]
        bind_res_def fd fl_of_int [OF b] py_int_of_int)
qed

text \<open>
  C9: for colours \<open>c1\<close> and \<open>c2\<close> of equal length, \<^verbatim>\<open>lerp(c1, c2, 0)\<close> is \<open>c1\<close> and
  \<^verbatim>\<open>lerp(c1, c2, 1)\<close> is \<open>c2\<close>. With the integers 0 and 1 this holds for all integer channels;
  with the floats 0.0 and 1.0 it holds for channels below \<open>2 ^ 52\<close> in absolute value (every
  8-bit channel), where the conversions to float and the truncation lose nothing.
\<close>
theorem lerp_endpoints:
  "length c1 = length c2 \<Longrightarrow>
     lerp c1 c2 (PyInt 0) = Inr c1 \<and> lerp c1 c2 (PyInt 1) = Inr c2 \<and>
     (list_all (\<lambda>c. \<bar>c\<bar> < 2 ^ 52) (c1 @ c2) \<longrightarrow>
        lerp c1 c2 (PyFloat 0) = Inr c1 \<and> lerp c1 c2 (PyFloat 1) = Inr c2)"
proof (intro conjI impI)
  assume len: "length c1 = length c2"
  have "lerp c1 c2 (PyInt 0) = Inr (map (\<lambda>i. c1 ! i) [0..<length c1])"
    using len by (rule lerp_by_channel) (simp add: lerp_channel_def)
  then show "lerp c1 c2 (PyInt 0) = Inr c1" by (simp add: map_nth)
  have "lerp c1 c2 (PyInt 1) = Inr (map (\<lambda>i. c2 ! i) [0..<length c1])"
    using len by (rule lerp_by_channel) (simp add: lerp_channel_def)
  then show "lerp c1 c2 (PyInt 1) = Inr c2" by (simp add: len map_nth)
next
  assume len: "length c1 = length c2" and ch: "list_all (\<lambda>c. \<bar>c\<bar> < 2 ^ 52) (c1 @ c2)"
  have b: "\<And>i. i < length c1 \<Longrightarrow> \<bar>c1 ! i\<bar> < 2 ^ 52 \<and> \<bar>c2 ! i\<bar> < 2 ^ 52"
    using ch len nth_mem [of _ c1] nth_mem [of _ c2] by (simp add: list_all_iff)
  have "lerp c1 c2 (PyFloat 0) = Inr (map (\<lambda>i. c1 ! i) [0..<length c1])"
  proof (rule lerp_by_channel [OF len])
    fix i assume "i < length c1"
    then have "\<bar>c1 ! i\<bar> < 2 ^ 52" "\<bar>c2 ! i\<bar> < 2 ^ 52" using b by blast+
    then show "lerp_channel (c1 ! i) (c2 ! i) (PyFloat 0) = Inr (c1 ! i)"
      by (rule lerp_channel_float_0)
  qed
  then show "lerp c1 c2 (PyFloat 0) = Inr c1" by (simp add: map_nth)
next
  assume len: "length c1 = length c2" and ch: "list_all (\<lambda>c. \<bar>c\<bar> < 2 ^ 52) (c1 @ c2)"
  have b: "\<And>i. i < length c1 \<Longrightarrow> \<bar>c1 ! i\<bar> < 2 ^ 52 \<and> \<bar>c2 ! i\<bar> < 2 ^ 52"
    using ch len nth_mem [of _ c1] nth_mem [of _ c2] by (simp add: list_all_iff)
  have "lerp c1 c2 (PyFloat 1) = Inr (map (\<lambda>i. c2 ! i) [0..<length c1])"
  proof (rule lerp_by_channel [OF len])
    fix i assume "i < length c1"
    then have "\<bar>c1 ! i\<bar> < 2 ^ 52" "\<bar>c2 ! i\<bar> < 2 ^ 52" using b by blast+
    then show "lerp_channel (c1 ! i) (c2 ! i) (PyFloat 1) = Inr (c2 ! i)"
      by (rule lerp_channel_float_1)
  qed
  then show "lerp c1 c2 (PyFloat 1) = Inr c2" by (simp add: len map_nth)
qed

theorem lerp_endpoints_witness:
  "length GOLD_LIGHT = length GOLD_DARK \<and> list_all (\<lambda>c. \<bar>c\<bar> < 2 ^ 52) (GOLD_LIGHT @ GOLD_DARK) \<and>
   lerp GOLD_LIGHT GOLD_DARK (PyInt 0) = Inr [240, 210, 150, 255] \<and>
   lerp GOLD_LIGHT GOLD_DARK (PyInt 1) = Inr [170, 125, 42, 255] \<and>
   lerp GOLD_LIGHT GOLD_DARK (PyFloat 0) = Inr [240, 210, 150, 255] \<and>
   lerp GOLD_LIGHT GOLD_DARK (PyFloat 1) = Inr [170, 125, 42, 255]"
proof -
  have l: "length GOLD_LIGHT = length GOLD_DARK" by (simp add: GOLD_LIGHT_def GOLD_DARK_def)
  have c: "list_all (\<lambda>c. \<bar>c\<bar> < 2 ^ 52) (GOLD_LIGHT @ GOLD_DARK)"
    by (simp add: GOLD_LIGHT_def GOLD_DARK_def)
  show ?thesis using lerp_endpoints [OF l] l c by (simp add: GOLD_LIGHT_def GOLD_DARK_def)
qed

section \<open>The node lists and the node tiers\<close>

text \<open>
  C8: the chest pattern has exactly 17 nodes and the head pattern exactly 8, and both
  indices of every pair in \<open>conns\<close> and in \<open>h_conns\<close> are valid indices (from 0, below the
  length) of the corresponding node list.
\<close>

theorem node_lists_sizes:
  "length nodes = 17 \<and> length h_nodes = 8 \<and>
   (\<forall>(a, b) \<in> set conns. 0 \<le> a \<and> a < int (length nodes) \<and> 0 \<le> b \<and> b < int (length nodes)) \<and>
   (\<forall>(a, b) \<in> set h_conns. 0 \<le> a \<and> a < int (length h_nodes) \<and> 0 \<le> b \<and> b < int (length h_nodes))"
  by (simp add: nodes_def h_nodes_def conns_def h_conns_def)

theorem node_lists_sizes_witness:
  "(11, 16) \<in> set conns \<and> (0::int) \<le> 11 \<and> 11 < int (length nodes) \<and>
   (0::int) \<le> 16 \<and> 16 < int (length nodes)"
proof -
  have m: "(11, 16) \<in> set conns" by (simp add: conns_def)
  from node_lists_sizes
  have "\<forall>(a, b) \<in> set conns. 0 \<le> a \<and> a < int (length nodes) \<and> 0 \<le> b \<and> b < int (length nodes)"
    by blast
  with m have "0 \<le> (11::int) \<and> 11 < int (length nodes) \<and> 0 \<le> (16::int) \<and> 16 < int (length nodes)"
    by blast
  with m show ?thesis by simp
qed

lemma ellipse_radius_circle: "ellipse_radius (circle cx cy r c) = r"
  by (simp add: circle_def)

text \<open>
  C6: in the chest pattern the core circle (the second of the three circles drawn for a
  node) has radius 7 for node index 0 and radius 4 for every node index from 13 on, so the
  root's core radius is greater than or equal to that of every node of the outermost tier.
\<close>

theorem core_radius_root_ge_outer:
  "13 \<le> i \<Longrightarrow>
     ellipse_radius (chest_node 0 p ! 1) = 7 \<and> ellipse_radius (chest_node i q ! 1) = 4 \<and>
     ellipse_radius (chest_node i q ! 1) \<le> ellipse_radius (chest_node 0 p ! 1)"
  by (cases p, cases q) (simp add: chest_node_def ellipse_radius_circle)

theorem core_radius_root_ge_outer_witness:
  "(13::nat) \<le> 16 \<and>
   ellipse_radius (chest_node 16 (nodes ! 16) ! 1) \<le> ellipse_radius (chest_node 0 (nodes ! 0) ! 1)"
  using core_radius_root_ge_outer [of 16 "nodes ! 0" "nodes ! 16"] by simp

section \<open>Rasters, compositing and saving\<close>

lemma outa255_opaque: "ucast sa * 255 + 255 * (255 - ucast sa) = (65025 :: 32 word)" for sa :: "8 word"
  by (simp add: algebra_simps)

lemma composite_px_opaque: "px_alpha dst = 255 \<Longrightarrow> px_alpha (composite_px dst src) = 255"
proof -
  assume a: "px_alpha dst = 255"
  obtain dr dg db da where d: "dst = (dr, dg, db, da)" by (cases dst) auto
  obtain sr sg sb sa where s: "src = (sr, sg, sb, sa)" by (cases src) auto
  have da: "da = 255" using a d by (simp add: px_alpha_def)
  have k: "(ucast (SHIFTFORDIV255 65153) :: 8 word) = 255"
    by (simp add: SHIFTFORDIV255_def)
  show ?thesis
  proof (cases "sa = 0")
    case True
    then show ?thesis using a d s by (simp add: composite_px_def)
  next
    case False
    then show ?thesis
      unfolding d s da composite_px_def
      by (simp add: Let_def px_alpha_def outa255_opaque k)
  qed
qed

lemma getink_BG_DARK: "getink BG_DARK = Inr (10, 10, 13, 255)"
  by (simp add: BG_DARK_def CLIP8_def)

lemma image_new_BG:
  "image_new (SIZE, SIZE) BG_DARK = Inr \<lparr>isize = (1024, 1024), ipix = (\<lambda>x y. (10, 10, 13, 255))\<rparr>"
  by (simp add: image_new_def SIZE_def getink_BG_DARK bind_res_def)

lemma save_section_eval:
  assumes "isize img = (1024, 1024)"
  shows "save_section img =
    Inr \<lparr>rgb_file = \<lparr>isize = (1024, 1024), ipix = (\<lambda>x y. px_rgb (composite_px (10, 10, 13, 255) (ipix img x y)))\<rparr>,
         rgba_file = \<lparr>isize = (1024, 1024), ipix = (\<lambda>x y. composite_px (10, 10, 13, 255) (ipix img x y))\<rparr>\<rparr>"
  using assms
  by (simp add: save_section_def image_new_BG bind_res_def alpha_composite_def convert_RGB_def
      px_rgb_def)

lemma save_section_size_mismatch:
  "isize img \<noteq> (1024, 1024) \<Longrightarrow> save_section img = Inl ValueError"
  by (auto simp add: save_section_def image_new_BG bind_res_def alpha_composite_def)

lemma getink_len4: "length c = 4 \<Longrightarrow> \<exists>p. getink c = Inr p"
  by (cases c rule: getink.cases) simp_all

lemma pil_draw_ok:
  "length (op_color d) = 4 \<Longrightarrow> \<exists>im'. pil_draw L d im = Inr im' \<and> isize im' = isize im"
proof -
  assume "length (op_color d) = 4"
  then obtain p where "getink (op_color d) = Inr p" using getink_len4 by blast
  then show ?thesis by (simp add: pil_draw_def bind_res_def)
qed

lemma pil_draw_size: "pil_draw L d im = Inr im' \<Longrightarrow> isize im' = isize im"
  by (auto simp add: pil_draw_def bind_res_def split: sum.splits)

lemma foldM_pil_draw_size: "foldM_res (pil_draw L) ops im = Inr im' \<Longrightarrow> isize im' = isize im"
proof (induction ops arbitrary: im)
  case Nil
  then show ?case by simp
next
  case (Cons d ops)
  then show ?case by (auto split: sum.splits dest: pil_draw_size)
qed

lemma foldM_pil_draw_ok:
  "rgba_ops ops \<Longrightarrow> \<exists>im'. foldM_res (pil_draw L) ops im = Inr im' \<and> isize im' = isize im"
proof (induction ops arbitrary: im)
  case Nil
  then show ?case by simp
next
  case (Cons d ops)
  then have l: "length (op_color d) = 4" and r: "rgba_ops ops" by (simp_all add: rgba_ops_def)
  from pil_draw_ok [OF l] obtain im1 where 1: "pil_draw L d im = Inr im1" "isize im1 = isize im"
    by blast
  from Cons.IH [OF r] obtain im2 where 2: "foldM_res (pil_draw L) ops im1 = Inr im2" "isize im2 = isize im1"
    by blast
  show ?case using 1 2 by simp
qed

section \<open>Every layer is drawn\<close>

lemma mapM_res_ok:
  "(\<And>x. x \<in> set xs \<Longrightarrow> \<exists>y. f x = Inr y \<and> P y) \<Longrightarrow>
     \<exists>ys. mapM_res f xs = Inr ys \<and> list_all P ys \<and> length ys = length xs"
proof (induction xs)
  case Nil
  then show ?case by simp
next
  case (Cons x xs)
  from Cons.prems obtain y where y: "f x = Inr y" "P y" by auto
  from Cons obtain ys where ys: "mapM_res f xs = Inr ys" "list_all P ys" "length ys = length xs"
    by auto
  show ?case using y ys by simp
qed

lemma mapM_res_length: "mapM_res f xs = Inr ys \<Longrightarrow> length ys = length xs"
  by (induction xs arbitrary: ys) (auto split: sum.splits)

lemma rgba_ops_append: "rgba_ops (xs @ ys) = (rgba_ops xs \<and> rgba_ops ys)"
  by (simp add: rgba_ops_def)

lemma rgba_ops_concat: "list_all rgba_ops xss \<Longrightarrow> rgba_ops (concat xss)"
  by (induction xss) (simp_all add: rgba_ops_append, simp add: rgba_ops_def)

lemma rgba_ops_Cons: "rgba_ops (d # ds) = (length (op_color d) = 4 \<and> rgba_ops ds)"
  by (simp add: rgba_ops_def)

lemma rgba_ops_Nil: "rgba_ops []"
  by (simp add: rgba_ops_def)

lemma op_color_helpers:
  "op_color (circle cx cy r c) = c" "op_color (ring cx cy r w c) = c"
  "op_color (poly pts c) = c" "op_color (line x1 y1 x2 y2 c w) = c"
  by (simp_all add: circle_def ring_def poly_def line_def)

lemmas palette_defs = BG_DARK_def GOLD_def GOLD_DARK_def GOLD_WARM_def GOLD_LIGHT_def GOLD_PALE_def
  BODY_DARK_def BODY_MID_def WING_DARK_def FACE_DISC_def EYE_BG_def

lemma layer1_rgba: "rgba_ops (layer1 L)"
  by (simp add: layer1_def rgba_ops_def list_all_iff op_color_helpers)

lemma chest_glow_rgba: "rgba_ops (chest_glow L)"
  by (simp add: chest_glow_def rgba_ops_def list_all_iff op_color_helpers)

lemma layer2_rgba: "rgba_ops layer2"
  by (simp add: layer2_def rgba_ops_def palette_defs)

lemma layer3_rgba: "rgba_ops layer3"
  by (simp add: layer3_def ear_def Let_def rgba_ops_def palette_defs op_color_helpers)

lemma layer4_rgba: "rgba_ops layer4"
  by (simp add: layer4_def rgba_ops_def palette_defs op_color_helpers)

lemma layer6_rgba: "rgba_ops layer6"
  by (simp add: layer6_def rgba_ops_def palette_defs op_color_helpers)

lemma layer10_rgba: "rgba_ops layer10"
  by (simp add: layer10_def foot_def Let_def rgba_ops_def op_color_helpers)

lemma fl_abs_le_pow2: "\<bar>x\<bar> \<le> 2 ^ k \<Longrightarrow> \<bar>fl x\<bar> \<le> 2 ^ k"
proof -
  assume a: "\<bar>x\<bar> \<le> 2 ^ k"
  have r: "fl (2 ^ k) = (2::real) ^ k" using fl_repr [of 1 "int k"] by simp
  have "x \<le> 2 ^ k" using a by linarith
  then have "fl x \<le> fl (2 ^ k)" by (rule fl_mono)
  then have u: "fl x \<le> 2 ^ k" by (simp only: r)
  have "- (2 ^ k) \<le> x" using a by linarith
  then have "fl (- (2 ^ k)) \<le> fl x" by (rule fl_mono)
  then have l: "- (2 ^ k) \<le> fl x" by (simp only: fl_uminus r)
  show ?thesis using u l by linarith
qed

lemma no_overflow_pow2: "\<bar>x\<bar> \<le> 2 ^ k \<Longrightarrow> k < 1024 \<Longrightarrow> \<not> f_overflow x"
proof -
  assume a: "\<bar>x\<bar> \<le> 2 ^ k" and k: "k < 1024"
  have "\<bar>fl x\<bar> \<le> 2 ^ k" using a by (rule fl_abs_le_pow2)
  moreover have "(2::real) ^ k < 2 ^ 1024" using k by (intro power_strict_increasing) simp_all
  ultimately show ?thesis unfolding f_overflow_def by linarith
qed

lemma lerp_channel_float_ok:
  assumes a: "\<bar>a\<bar> < 2 ^ 52" and b: "\<bar>b\<bar> < 2 ^ 52" and x: "0 \<le> x" "x \<le> 1"
  shows "\<exists>v. lerp_channel a b (PyFloat x) = Inr v"
proof -
  have d: "\<bar>b - a\<bar> < 2 ^ 53" using a b by simp
  have a': "\<bar>a\<bar> < 2 ^ 53" using a by simp
  have rd: "\<bar>real_of_int (b - a)\<bar> \<le> 2 ^ 53" using d by (rule of_int_abs_bound)
  have ra: "\<bar>real_of_int a\<bar> \<le> 2 ^ 53" using a' by (rule of_int_abs_bound)
  have "\<bar>real_of_int (b - a) * x\<bar> \<le> \<bar>real_of_int (b - a)\<bar> * 1"
    unfolding abs_mult using x by (intro mult_left_mono) simp_all
  then have "\<bar>real_of_int (b - a) * x\<bar> \<le> \<bar>real_of_int (b - a)\<bar>" by simp
  then have p: "\<bar>real_of_int (b - a) * x\<bar> \<le> 2 ^ 53" using rd by (rule order_trans)
  have o1: "\<not> f_overflow (real_of_int (b - a) * x)" using p by (rule no_overflow_pow2) simp
  have "\<bar>fl (real_of_int (b - a) * x)\<bar> \<le> 2 ^ 53" using p by (rule fl_abs_le_pow2)
  then have "\<bar>real_of_int a + fl (real_of_int (b - a) * x)\<bar> \<le> 2 ^ 54" using ra by simp
  then have o2: "\<not> f_overflow (real_of_int a + fl (real_of_int (b - a) * x))"
    by (rule no_overflow_pow2) simp
  show ?thesis
    using o1 o2 by (simp add: lerp_channel_def py_float_small [OF d] py_float_small [OF a'] bind_res_def)
qed

lemma lerp_float_ok:
  assumes len: "length c1 = length c2" and ch: "list_all (\<lambda>c. \<bar>c\<bar> < 2 ^ 52) (c1 @ c2)"
    and x: "0 \<le> x" "x \<le> 1"
  shows "\<exists>c. lerp c1 c2 (PyFloat x) = Inr c \<and> length c = length c1"
proof -
  have b: "\<And>i. i < length c1 \<Longrightarrow> \<bar>c1 ! i\<bar> < 2 ^ 52 \<and> \<bar>c2 ! i\<bar> < 2 ^ 52"
    using ch len nth_mem [of _ c1] nth_mem [of _ c2] by (simp add: list_all_iff)
  have "\<exists>ys. mapM_res (\<lambda>i. bind_res (py_get c2 (int i)) (\<lambda>b. lerp_channel (c1 ! i) b (PyFloat x)))
           [0..<length c1] = Inr ys \<and> list_all (\<lambda>y. True) ys \<and> length ys = length [0..<length c1]"
  proof (rule mapM_res_ok)
    fix i assume "i \<in> set [0..<length c1]"
    then have i: "i < length c1" by simp
    then have g: "py_get c2 (int i) = Inr (c2 ! i)" using len by (simp add: py_get_nat)
    have "\<bar>c1 ! i\<bar> < 2 ^ 52" "\<bar>c2 ! i\<bar> < 2 ^ 52" using b [OF i] by blast+
    then obtain v where "lerp_channel (c1 ! i) (c2 ! i) (PyFloat x) = Inr v"
      using lerp_channel_float_ok x by blast
    then show "\<exists>y. bind_res (py_get c2 (int i)) (\<lambda>b. lerp_channel (c1 ! i) b (PyFloat x)) = Inr y \<and> True"
      using g by (simp add: bind_res_def)
  qed
  then show ?thesis by (auto simp add: lerp_def)
qed

lemma py_range_30: "r \<in> set (py_range 30 0 (- 1)) \<Longrightarrow> 1 \<le> r \<and> r \<le> 30"
  by (auto simp add: py_range_def)

lemma iris_ok: "\<exists>ops. iris ex = Inr ops \<and> rgba_ops ops"
proof -
  have "\<exists>ys. mapM_res (\<lambda>r. let t = fl (of_int r / 30)
                    in bind_res (lerp GOLD_LIGHT GOLD_DARK (PyFloat (fl (t * t))))
                         (\<lambda>col. Inr (circle ex EYE_Y r col)))
       (py_range 30 0 (- 1)) = Inr ys \<and> list_all (\<lambda>d. length (op_color d) = 4) ys
       \<and> length ys = length (py_range 30 0 (- 1))"
  proof (rule mapM_res_ok)
    fix r assume "r \<in> set (py_range 30 0 (- 1))"
    then have r: "1 \<le> r" "r \<le> 30" using py_range_30 by blast+
    define t where "t = fl (real_of_int r / 30)"
    have t0: "0 \<le> t" unfolding t_def using r by (intro fl_nonneg) simp
    have "fl (real_of_int r / 30) \<le> fl 1" using r by (intro fl_mono) simp
    then have t1: "t \<le> 1" by (simp add: t_def fl_1)
    have tt: "0 \<le> t * t" "t * t \<le> 1" using t0 t1 by (simp_all add: mult_le_one)
    have x0: "0 \<le> fl (t * t)" using tt by (intro fl_nonneg)
    have "fl (t * t) \<le> fl 1" using tt by (intro fl_mono)
    then have x1: "fl (t * t) \<le> 1" by (simp add: fl_1)
    have "\<exists>c. lerp GOLD_LIGHT GOLD_DARK (PyFloat (fl (t * t))) = Inr c \<and> length c = length GOLD_LIGHT"
      using x0 x1 by (intro lerp_float_ok) (simp_all add: GOLD_LIGHT_def GOLD_DARK_def)
    then obtain c where c: "lerp GOLD_LIGHT GOLD_DARK (PyFloat (fl (t * t))) = Inr c" "length c = 4"
      by (auto simp add: GOLD_LIGHT_def)
    show "\<exists>y. (let t = fl (of_int r / 30)
                    in bind_res (lerp GOLD_LIGHT GOLD_DARK (PyFloat (fl (t * t))))
                         (\<lambda>col. Inr (circle ex EYE_Y r col))) = Inr y \<and> length (op_color y) = 4"
      using c by (simp add: Let_def t_def [symmetric] bind_res_def op_color_helpers)
  qed
  then show ?thesis by (auto simp add: iris_def rgba_ops_def)
qed

lemma eye_ok: "\<exists>ops. eye side = Inr ops \<and> rgba_ops ops"
proof -
  obtain ops where "iris (CX + side * EYE_SPACING) = Inr ops" "rgba_ops ops" using iris_ok by blast
  then show ?thesis
    by (simp add: eye_def Let_def bind_res_def rgba_ops_append rgba_ops_Cons rgba_ops_Nil
        op_color_helpers palette_defs)
qed

lemma layer5_ok: "\<exists>ops. layer5 = Inr ops \<and> rgba_ops ops"
proof -
  have "\<exists>ys. mapM_res eye [- 1, 1] = Inr ys \<and> list_all rgba_ops ys \<and> length ys = length [- 1, 1 :: int]"
    by (rule mapM_res_ok) (rule eye_ok)
  then obtain ys where "mapM_res eye [- 1, 1] = Inr ys" "list_all rgba_ops ys" by blast
  then show ?thesis by (simp add: layer5_def bind_res_def rgba_ops_concat)
qed

lemma py_range_0_5: "i \<in> set (py_range 0 5 1) \<Longrightarrow> 0 \<le> i \<and> i \<le> 4"
  by (auto simp add: py_range_def)

lemma length_wing_pts: "length (wing_pts s) = 9"
  by (simp add: wing_pts_def)

lemma wing_edge_ok:
  assumes "0 \<le> i" "i \<le> 4"
  shows "\<exists>d. wing_edge s i = Inr d \<and> length (op_color d) = 4"
proof -
  have 1: "py_get (wing_pts s) i = Inr (wing_pts s ! nat i)"
    using assms by (simp add: py_get_def length_wing_pts)
  have 2: "py_get (wing_pts s) (i + 1) = Inr (wing_pts s ! nat (i + 1))"
    using assms by (simp add: py_get_def length_wing_pts)
  show ?thesis
    unfolding wing_edge_def 1 2 by (simp add: bind_res_def op_color_helpers split: prod.split)
qed

lemma wing_ok: "\<exists>ops. wing s = Inr ops \<and> rgba_ops ops"
proof -
  have "\<exists>ys. mapM_res (wing_edge s) (py_range 0 5 1) = Inr ys \<and>
          list_all (\<lambda>d. length (op_color d) = 4) ys \<and> length ys = length (py_range 0 5 1)"
  proof (rule mapM_res_ok)
    fix i assume "i \<in> set (py_range 0 5 1)"
    then have "0 \<le> i" "i \<le> 4" using py_range_0_5 by blast+
    then show "\<exists>y. wing_edge s i = Inr y \<and> length (op_color y) = 4" by (rule wing_edge_ok)
  qed
  then obtain ys where ys: "mapM_res (wing_edge s) (py_range 0 5 1) = Inr ys" "rgba_ops ys"
    by (auto simp add: rgba_ops_def)
  have 4: "py_get (wing_pts s) 4 = Inr (wing_pts s ! 4)" by (simp add: py_get_def length_wing_pts)
  have 5: "py_get (wing_pts s) 5 = Inr (wing_pts s ! 5)" by (simp add: py_get_def length_wing_pts)
  show ?thesis
    unfolding wing_def ys(1) 4 5 using ys(2)
    by (simp add: bind_res_def rgba_ops_append rgba_ops_Cons rgba_ops_Nil feather_def Let_def
        op_color_helpers palette_defs split: prod.split)
qed

lemma layer7_ok: "\<exists>ops. layer7 = Inr ops \<and> rgba_ops ops"
proof -
  have "\<exists>ys. mapM_res wing [- 1, 1] = Inr ys \<and> list_all rgba_ops ys \<and> length ys = length [- 1, 1 :: int]"
    by (rule mapM_res_ok) (rule wing_ok)
  then obtain ys where "mapM_res wing [- 1, 1] = Inr ys" "list_all rgba_ops ys" by blast
  then show ?thesis by (simp add: layer7_def bind_res_def rgba_ops_concat)
qed

lemma conn_passes_rgba: "rgba_ops (conn_passes x1 y1 x2 y2 ba)"
  by (simp add: conn_passes_def rgba_ops_def op_color_helpers)

lemma h_conn_passes_rgba: "rgba_ops (h_conn_passes x1 y1 x2 y2)"
  by (simp add: h_conn_passes_def rgba_ops_def op_color_helpers)

lemma chest_node_rgba: "rgba_ops (chest_node i p)"
  by (cases p) (simp add: chest_node_def rgba_ops_def op_color_helpers palette_defs)

lemma head_node_rgba: "rgba_ops (head_node p)"
  by (cases p) (simp add: head_node_def rgba_ops_def op_color_helpers palette_defs)

lemma rgba_ops_concat_map: "(\<And>x. rgba_ops (f x)) \<Longrightarrow> rgba_ops (concat (map f xs))"
  by (induction xs) (simp_all add: rgba_ops_append rgba_ops_Nil)

lemma layer8_ok: "\<exists>ops. layer8 L = Inr ops \<and> rgba_ops ops"
proof -
  have "\<exists>ys. mapM_res chest_conn conns = Inr ys \<and> list_all rgba_ops ys \<and> length ys = length conns"
  proof (rule mapM_res_ok)
    fix c assume c: "c \<in> set conns"
    obtain a b where ab: "c = (a, b)" by (cases c) auto
    with c chest_conn_base_alpha obtain dst where
      "chest_conn (a, b) =
       Inr (conn_passes (fst (nodes ! nat a)) (snd (nodes ! nat a))
              (fst (nodes ! nat b)) (snd (nodes ! nat b)) (base_alpha dst))" by blast
    then show "\<exists>y. chest_conn c = Inr y \<and> rgba_ops y" using ab conn_passes_rgba by simp
  qed
  then obtain ys where ys: "mapM_res chest_conn conns = Inr ys" "list_all rgba_ops ys" by blast
  have "rgba_ops (concat (map (\<lambda>(i, p). chest_node i p) (enumerate 0 nodes)))"
    by (rule rgba_ops_concat_map) (simp add: chest_node_rgba split: prod.split)
  then show ?thesis
    using ys by (simp add: layer8_def bind_res_def rgba_ops_append rgba_ops_concat chest_glow_rgba)
qed

lemma layer9_ok: "\<exists>ops. layer9 = Inr ops \<and> rgba_ops ops"
proof -
  have "\<exists>ys. mapM_res head_conn h_conns = Inr ys \<and> list_all rgba_ops ys \<and> length ys = length h_conns"
  proof (rule mapM_res_ok)
    fix c assume c: "c \<in> set h_conns"
    obtain a b where ab: "c = (a, b)" by (cases c) auto
    with c head_conn_eval have
      "head_conn (a, b) =
       Inr (h_conn_passes (fst (h_nodes ! nat a)) (snd (h_nodes ! nat a))
              (fst (h_nodes ! nat b)) (snd (h_nodes ! nat b)))" by blast
    then show "\<exists>y. head_conn c = Inr y \<and> rgba_ops y" using ab h_conn_passes_rgba by simp
  qed
  then obtain ys where ys: "mapM_res head_conn h_conns = Inr ys" "list_all rgba_ops ys" by blast
  have "rgba_ops (concat (map head_node h_nodes))"
    by (rule rgba_ops_concat_map) (rule head_node_rgba)
  then show ?thesis
    using ys by (simp add: layer9_def bind_res_def rgba_ops_append rgba_ops_concat)
qed

lemma choice_ok:
  assumes "randbelow_ok L"
  shows "\<exists>x s'. choice L [1, 1, 2 :: int] s = Inr (x, s') \<and> (x = 1 \<or> x = 2)"
proof -
  obtain k s' where k: "rng_randbelow L (Suc 2) s = (k, s')" by (cases "rng_randbelow L (Suc 2) s") auto
  have "fst (rng_randbelow L (Suc 2) s) \<le> 2" using assms unfolding randbelow_ok_def by blast
  then have "k \<le> 2" using k by simp
  then have "k = 0 \<or> k = 1 \<or> k = 2" by linarith
  then show ?thesis
    using k by (auto simp add: choice_def py_get_def bind_res_def numeral_3_eq_3 numeral_2_eq_2)
qed

lemma randint_ok:
  assumes "randbelow_ok L"
  shows "\<exists>v s'. randint L 15 45 s = Inr (v, s') \<and> 15 \<le> v \<and> v \<le> 45"
proof -
  obtain k s' where k: "rng_randbelow L (Suc 30) s = (k, s')" by (cases "rng_randbelow L (Suc 30) s") auto
  have "fst (rng_randbelow L (Suc 30) s) \<le> 30" using assms unfolding randbelow_ok_def by blast
  then have "k \<le> 30" using k by simp
  moreover have "nat (45 + 1 - 15) = Suc 30" by simp
  ultimately show ?thesis using k by (simp add: randint_def)
qed

lemma draw_particle_ok:
  assumes "randbelow_ok L"
  shows "\<exists>p s'. draw_particle L s = Inr (p, s') \<and> (p_sz p = 1 \<or> p_sz p = 2) \<and>
           15 \<le> p_alpha p \<and> p_alpha p \<le> 45 \<and>
           p_angle p = fst (uniform L 0 (fl (2 * math_pi)) s) \<and>
           p_dist p = fst (uniform L 360 465 (snd (uniform L 0 (fl (2 * math_pi)) s)))"
proof -
  obtain angle s1 where u1: "uniform L 0 (fl (2 * math_pi)) s = (angle, s1)"
    by (cases "uniform L 0 (fl (2 * math_pi)) s") auto
  obtain dst s2 where u2: "uniform L 360 465 s1 = (dst, s2)" by (cases "uniform L 360 465 s1") auto
  obtain sz s3 where c: "choice L [1, 1, 2 :: int] s2 = Inr (sz, s3)" "sz = 1 \<or> sz = 2"
    using choice_ok [OF assms] by blast
  obtain al s4 where r: "randint L 15 45 s3 = Inr (al, s4)" "15 \<le> al" "al \<le> 45"
    using randint_ok [OF assms] by blast
  show ?thesis using u1 u2 c r by (simp add: draw_particle_def bind_res_def)
qed

section \<open>The outputs\<close>

lemma sample_randbelow_ok: "randbelow_ok sample_lib"
  by (simp add: randbelow_ok_def sample_lib_def)

lemma draw_particles_ok:
  assumes "\<And>s. \<exists>p s'. draw_particle L s = Inr (p, s') \<and> Q p"
  shows "\<exists>ps s'. draw_particles L n s = Inr (ps, s') \<and> length ps = n \<and> list_all Q ps"
proof (induction n arbitrary: s)
  case 0
  then show ?case by simp
next
  case (Suc n)
  obtain p s1 where p: "draw_particle L s = Inr (p, s1)" "Q p" using assms by blast
  obtain ps s2 where ps: "draw_particles L n s1 = Inr (ps, s2)" "length ps = n" "list_all Q ps"
    using Suc by blast
  show ?case using p ps by (simp add: bind_res_def)
qed

lemma particle_op_rgba: "length (op_color (particle_op L p)) = 4"
  by (simp add: particle_op_def Let_def op_color_helpers)

lemma layer11_ok:
  assumes "randbelow_ok L"
  shows "\<exists>ops. layer11 L s = Inr ops \<and> rgba_ops ops"
proof -
  have "\<And>s. \<exists>p s'. draw_particle L s = Inr (p, s') \<and> True"
    using draw_particle_ok [OF assms] by blast
  then have "\<exists>ps s'. draw_particles L 25 s = Inr (ps, s') \<and> length ps = 25 \<and> list_all (\<lambda>p. True) ps"
    by (rule draw_particles_ok)
  then obtain ps s' where "draw_particles L 25 s = Inr (ps, s')" by blast
  then show ?thesis
    by (simp add: layer11_def ambient_particles_def bind_res_def rgba_ops_def op_color_helpers
        list_all_iff particle_op_rgba)
qed

lemma draw_calls_ok:
  assumes "randbelow_ok L"
  shows "\<exists>ops. draw_calls L = Inr ops \<and> rgba_ops ops"
proof -
  obtain l5 where l5: "layer5 = Inr l5" "rgba_ops l5" using layer5_ok by blast
  obtain l7 where l7: "layer7 = Inr l7" "rgba_ops l7" using layer7_ok by blast
  obtain l8 where l8: "layer8 L = Inr l8" "rgba_ops l8" using layer8_ok by blast
  obtain l9 where l9: "layer9 = Inr l9" "rgba_ops l9" using layer9_ok by blast
  obtain l11 where l11: "layer11 L (rng_seed L 42) = Inr l11" "rgba_ops l11"
    using layer11_ok [OF assms] by blast
  show ?thesis
    unfolding draw_calls_def l5(1) l7(1) l8(1) l9(1) l11(1)
    using l5(2) l7(2) l8(2) l9(2) l11(2)
    by (simp add: bind_res_def rgba_ops_append layer1_rgba layer2_rgba layer3_rgba layer4_rgba
        layer6_rgba layer10_rgba)
qed

lemma render_ok:
  assumes "randbelow_ok L"
  shows "\<exists>img. render L = Inr img \<and> isize img = (1024, 1024)"
proof -
  obtain ops where ops: "draw_calls L = Inr ops" "rgba_ops ops" using draw_calls_ok [OF assms] by blast
  let ?img0 = "\<lparr>isize = (1024, 1024), ipix = (\<lambda>x y. (10, 10, 13, 255))\<rparr> :: rgba image"
  obtain img where "foldM_res (pil_draw L) ops ?img0 = Inr img" "isize img = isize ?img0"
    using foldM_pil_draw_ok [OF ops(2)] by blast
  then show ?thesis by (simp add: render_def image_new_BG ops(1) bind_res_def)
qed

lemma render_size: "render L = Inr img \<Longrightarrow> isize img = (1024, 1024)"
  by (auto simp add: render_def image_new_BG bind_res_def split: sum.splits dest: foldM_pil_draw_size)

lemma main_pixels:
  assumes "main L = Inr out"
  shows "\<exists>img. render L = Inr img \<and> isize img = (1024, 1024) \<and>
     rgba_file out = \<lparr>isize = (1024, 1024), ipix = (\<lambda>x y. composite_px (10, 10, 13, 255) (ipix img x y))\<rparr> \<and>
     rgb_file out = \<lparr>isize = (1024, 1024), ipix = (\<lambda>x y. px_rgb (composite_px (10, 10, 13, 255) (ipix img x y)))\<rparr>"
proof -
  obtain img where img: "render L = Inr img" "save_section img = Inr out"
    using assms by (auto simp add: main_def bind_res_def split: sum.splits)
  have s: "isize img = (1024, 1024)" using img(1) by (rule render_size)
  have "out = \<lparr>rgb_file = \<lparr>isize = (1024, 1024), ipix = (\<lambda>x y. px_rgb (composite_px (10, 10, 13, 255) (ipix img x y)))\<rparr>,
         rgba_file = \<lparr>isize = (1024, 1024), ipix = (\<lambda>x y. composite_px (10, 10, 13, 255) (ipix img x y))\<rparr>\<rparr>"
    using img(2) save_section_eval [OF s] by simp
  then show ?thesis using img(1) s by auto
qed

text \<open>
  C5: whenever the script emits its files, both rasters (the RGB file and the RGBA file) are
  exactly 1024 x 1024: the canvas is created at that size, no draw call changes the size, and
  compositing and conversion keep it. And the two rasters are there to be saved: with a
  generator that keeps its contract no statement before the two \<^verbatim>\<open>save\<close> calls raises.
\<close>
theorem output_dimensions:
  "(main L = Inr out \<longrightarrow>
      isize (rgb_file out) = (1024, 1024) \<and> isize (rgba_file out) = (1024, 1024)) \<and>
   (randbelow_ok L \<longrightarrow> (\<exists>out. main L = Inr out))"
proof (intro conjI impI)
  assume m: "main L = Inr out"
  from main_pixels [OF m] obtain img :: "rgba image" where
    "rgba_file out = \<lparr>isize = (1024, 1024), ipix = (\<lambda>x y. composite_px (10, 10, 13, 255) (ipix img x y))\<rparr>"
    "rgb_file out = \<lparr>isize = (1024, 1024), ipix = (\<lambda>x y. px_rgb (composite_px (10, 10, 13, 255) (ipix img x y)))\<rparr>"
    by blast
  then show "isize (rgb_file out) = (1024, 1024)" "isize (rgba_file out) = (1024, 1024)" by simp_all
next
  assume "randbelow_ok L"
  then obtain img where img: "render L = Inr img" "isize img = (1024, 1024)" using render_ok by blast
  show "\<exists>out. main L = Inr out"
    by (simp add: main_def img(1) bind_res_def save_section_eval [OF img(2)])
qed

theorem output_dimensions_witness:
  "randbelow_ok sample_lib \<and>
   (\<exists>out. main sample_lib = Inr out \<and>
       isize (rgb_file out) = (1024, 1024) \<and> isize (rgba_file out) = (1024, 1024))"
proof -
  obtain out where m: "main sample_lib = Inr out"
    using output_dimensions [of sample_lib] sample_randbelow_ok by blast
  have "isize (rgb_file out) = (1024, 1024) \<and> isize (rgba_file out) = (1024, 1024)"
    using output_dimensions [of sample_lib out] m by blast
  then show ?thesis using m sample_randbelow_ok by blast
qed

text \<open>
  C2, as stated, fails in its second half: the script does reach its two \<^verbatim>\<open>save\<close> calls (for
  the sample library), and in no run has a pixel of the RGBA file an alpha other than 255, at the edges
  or anywhere else.
\<close>
theorem rgba_output_is_opaque:
  "(\<exists>out. main sample_lib = Inr out) \<and>
   \<not> (\<exists>(L :: nat pylib) out x y. main L = Inr out \<and> px_alpha (ipix (rgba_file out) x y) \<noteq> 255)"
proof
  show "\<exists>out. main sample_lib = Inr out" using render_ok [OF sample_randbelow_ok] by (auto simp add: main_def bind_res_def save_section_eval)
next
  show "\<not> (\<exists>(L :: nat pylib) out x y. main L = Inr out \<and> px_alpha (ipix (rgba_file out) x y) \<noteq> 255)"
  proof
    assume "\<exists>(L :: nat pylib) out x y. main L = Inr out \<and> px_alpha (ipix (rgba_file out) x y) \<noteq> 255"
    then obtain L :: "nat pylib" and out x y where m: "main L = Inr out"
      and a: "px_alpha (ipix (rgba_file out) x y) \<noteq> 255" by blast
    from main_pixels [OF m] obtain img :: "rgba image" where
      "rgba_file out = \<lparr>isize = (1024, 1024), ipix = (\<lambda>x y. composite_px (10, 10, 13, 255) (ipix img x y))\<rparr>"
      by blast
    moreover have "px_alpha (composite_px (10, 10, 13, 255) (ipix img x y)) = 255"
      by (rule composite_px_opaque) (simp add: px_alpha_def)
    ultimately have "px_alpha (ipix (rgba_file out) x y) = 255" by simp
    with a show False by simp
  qed
qed

section \<open>Bounds on \<open>\<pi>\<close> and the value of \<^verbatim>\<open>math.pi\<close>\<close>










section \<open>The generator and determinism\<close>

lemma uniform_sim:
  assumes "rng_sim R L1 L2" "R s t"
  shows "fst (uniform L1 a b s) = fst (uniform L2 a b t) \<and>
         R (snd (uniform L1 a b s)) (snd (uniform L2 a b t))"
proof -
  have "fst (rng_random L1 s) = fst (rng_random L2 t) \<and>
        R (snd (rng_random L1 s)) (snd (rng_random L2 t))"
    using assms unfolding rng_sim_def by blast
  then show ?thesis by (auto simp add: uniform_def split: prod.split)
qed

lemma choice_sim:
  assumes "rng_sim R L1 L2" "R s t"
  shows "rel_sum (=) (rel_prod (=) R) (choice L1 xs s) (choice L2 xs t)"
proof -
  have "fst (rng_randbelow L1 (length xs) s) = fst (rng_randbelow L2 (length xs) t) \<and>
        R (snd (rng_randbelow L1 (length xs) s)) (snd (rng_randbelow L2 (length xs) t))"
    using assms unfolding rng_sim_def by blast
  then show ?thesis
    by (auto simp add: choice_def bind_res_def split: prod.split sum.split)
qed

lemma randint_sim:
  assumes "rng_sim R L1 L2" "R s t"
  shows "rel_sum (=) (rel_prod (=) R) (randint L1 a b s) (randint L2 a b t)"
proof -
  have "fst (rng_randbelow L1 (nat (b + 1 - a)) s) = fst (rng_randbelow L2 (nat (b + 1 - a)) t) \<and>
        R (snd (rng_randbelow L1 (nat (b + 1 - a)) s)) (snd (rng_randbelow L2 (nat (b + 1 - a)) t))"
    using assms unfolding rng_sim_def by blast
  then show ?thesis by (auto simp add: randint_def split: prod.split)
qed

lemma draw_particle_sim:
  assumes sim: "rng_sim R L1 L2" and st: "R s t"
  shows "rel_sum (=) (rel_prod (=) R) (draw_particle L1 s) (draw_particle L2 t)"
proof -
  let ?B = "fl (2 * math_pi)"
  obtain a1 s1 where u1: "uniform L1 0 ?B s = (a1, s1)" by (cases "uniform L1 0 ?B s") auto
  obtain a2 t1 where v1: "uniform L2 0 ?B t = (a2, t1)" by (cases "uniform L2 0 ?B t") auto
  have 1: "a1 = a2" "R s1 t1" using uniform_sim [OF sim st, of 0 ?B] u1 v1 by simp_all
  obtain d1 s2 where u2: "uniform L1 360 465 s1 = (d1, s2)" by (cases "uniform L1 360 465 s1") auto
  obtain d2 t2 where v2: "uniform L2 360 465 t1 = (d2, t2)" by (cases "uniform L2 360 465 t1") auto
  have 2: "d1 = d2" "R s2 t2" using uniform_sim [OF sim 1(2), of 360 465] u2 v2 by simp_all
  have c: "rel_sum (=) (rel_prod (=) R) (choice L1 [1, 1, 2 :: int] s2) (choice L2 [1, 1, 2] t2)"
    using sim 2(2) by (rule choice_sim)
  show ?thesis
  proof (cases "choice L1 [1, 1, 2 :: int] s2")
    case (Inl e)
    then have "choice L2 [1, 1, 2 :: int] t2 = Inl e" using c by (cases "choice L2 [1, 1, 2 :: int] t2") simp_all
    then show ?thesis using Inl u1 v1 u2 v2 by (simp add: draw_particle_def bind_res_def)
  next
    case (Inr x)
    obtain sz s3 where x: "x = (sz, s3)" by (cases x) auto
    obtain y where y: "choice L2 [1, 1, 2 :: int] t2 = Inr y" using c Inr by (cases "choice L2 [1, 1, 2 :: int] t2") simp_all
    obtain sz' t3 where y': "y = (sz', t3)" by (cases y) auto
    have 3: "sz = sz'" "R s3 t3" using c Inr x y y' by simp_all
    have r: "rel_sum (=) (rel_prod (=) R) (randint L1 15 45 s3) (randint L2 15 45 t3)"
      using sim 3(2) by (rule randint_sim)
    show ?thesis
    proof (cases "randint L1 15 45 s3")
      case (Inl e)
      then have "randint L2 15 45 t3 = Inl e" using r by (cases "randint L2 15 45 t3") simp_all
      then show ?thesis
        using Inl \<open>choice L1 [1, 1, 2 :: int] s2 = Inr x\<close> x y y' u1 v1 u2 v2
        by (simp add: draw_particle_def bind_res_def)
    next
      case (Inr z)
      obtain al s4 where z: "z = (al, s4)" by (cases z) auto
      obtain w where w: "randint L2 15 45 t3 = Inr w" using r Inr by (cases "randint L2 15 45 t3") simp_all
      obtain al' t4 where w': "w = (al', t4)" by (cases w) auto
      have 4: "al = al'" "R s4 t4" using r Inr z w w' by simp_all
      show ?thesis
        using Inr z w w' 4 3 1 2 \<open>choice L1 [1, 1, 2 :: int] s2 = Inr x\<close> x y y' u1 v1 u2 v2
        by (simp add: draw_particle_def bind_res_def)
    qed
  qed
qed

lemma draw_particles_sim:
  assumes sim: "rng_sim R L1 L2"
  shows "R s t \<Longrightarrow> rel_sum (=) (rel_prod (=) R) (draw_particles L1 n s) (draw_particles L2 n t)"
proof (induction n arbitrary: s t)
  case 0
  then show ?case by simp
next
  case (Suc n)
  have p: "rel_sum (=) (rel_prod (=) R) (draw_particle L1 s) (draw_particle L2 t)"
    using sim Suc.prems by (rule draw_particle_sim)
  show ?case
  proof (cases "draw_particle L1 s")
    case (Inl e)
    then have "draw_particle L2 t = Inl e" using p by (cases "draw_particle L2 t") simp_all
    then show ?thesis using Inl by (simp add: bind_res_def)
  next
    case (Inr x)
    obtain q s1 where x: "x = (q, s1)" by (cases x) auto
    obtain y where y: "draw_particle L2 t = Inr y" using p Inr by (cases "draw_particle L2 t") simp_all
    obtain q' t1 where y': "y = (q', t1)" by (cases y) auto
    have 1: "q = q'" "R s1 t1" using p Inr x y y' by simp_all
    have ih: "rel_sum (=) (rel_prod (=) R) (draw_particles L1 n s1) (draw_particles L2 n t1)"
      using 1(2) by (rule Suc.IH)
    show ?thesis
    proof (cases "draw_particles L1 n s1")
      case (Inl e)
      then have "draw_particles L2 n t1 = Inl e" using ih by (cases "draw_particles L2 n t1") simp_all
      then show ?thesis using Inl \<open>draw_particle L1 s = Inr x\<close> x y y' by (simp add: bind_res_def)
    next
      case (Inr z)
      obtain ps s2 where z: "z = (ps, s2)" by (cases z) auto
      obtain w where w: "draw_particles L2 n t1 = Inr w" using ih Inr by (cases "draw_particles L2 n t1") simp_all
      obtain ps' t2 where w': "w = (ps', t2)" by (cases w) auto
      have 2: "ps = ps'" "R s2 t2" using ih Inr z w w' by simp_all
      show ?thesis using Inr z w w' 1 2 \<open>draw_particle L1 s = Inr x\<close> x y y' by (simp add: bind_res_def)
    qed
  qed
qed

lemma ambient_particles_sim:
  assumes "rng_sim R L1 L2"
  shows "ambient_particles L1 (rng_seed L1 42) = ambient_particles L2 (rng_seed L2 42)"
proof -
  have "R (rng_seed L1 42) (rng_seed L2 42)" using assms unfolding rng_sim_def by blast
  then have r: "rel_sum (=) (rel_prod (=) R) (draw_particles L1 25 (rng_seed L1 42)) (draw_particles L2 25 (rng_seed L2 42))"
    by (rule draw_particles_sim [OF assms])
  show ?thesis
  proof (cases "draw_particles L1 25 (rng_seed L1 42)")
    case (Inl e)
    then have "draw_particles L2 25 (rng_seed L2 42) = Inl e"
      using r by (cases "draw_particles L2 25 (rng_seed L2 42)") simp_all
    then show ?thesis using Inl by (simp add: ambient_particles_def bind_res_def)
  next
    case (Inr z)
    obtain ps s2 where z: "z = (ps, s2)" by (cases z) auto
    obtain w where w: "draw_particles L2 25 (rng_seed L2 42) = Inr w"
      using r Inr by (cases "draw_particles L2 25 (rng_seed L2 42)") simp_all
    obtain ps' t2 where w': "w = (ps', t2)" by (cases w) auto
    have "ps = ps'" using r Inr z w w' by simp
    then show ?thesis using Inr z w w' by (simp add: ambient_particles_def bind_res_def)
  qed
qed


lemma sample_sim: "rng_sim (\<lambda>s t. t = int s) sample_lib sample_lib_int"
proof -
  have 1: "\<And>s :: nat. real_of_int (int s mod 4) = real (s mod 4)"
    by (metis of_int_of_nat_eq zmod_int of_nat_numeral)
  have 2: "\<And>n s. nat (int s mod int n) = s mod n"
    by (metis nat_int zmod_int)
  show ?thesis by (simp add: rng_sim_def sample_lib_def sample_lib_int_def 1 2)
qed

subsection \<open>Counting the draws that land in an interval\<close>





subsection \<open>The particles as functions of the draws\<close>


























lemma draw_calls_sim:
  assumes p: "fpow L1 = fpow L2" and cs: "fcos L1 = fcos L2" and sn: "fsin L1 = fsin L2"
    and sim: "rng_sim R L1 L2"
  shows "draw_calls L1 = draw_calls L2"
proof -
  have 1: "layer1 L1 = layer1 L2" by (simp add: layer1_def glow_alpha_def p)
  have g: "chest_glow L1 = chest_glow L2" by (simp add: chest_glow_def glow_alpha_def p)
  have 8: "layer8 L1 = layer8 L2" by (simp add: layer8_def g)
  have po: "particle_op L1 = particle_op L2" by (intro ext) (simp add: particle_op_def cs sn)
  have a: "ambient_particles L1 (rng_seed L1 42) = ambient_particles L2 (rng_seed L2 42)"
    using sim by (rule ambient_particles_sim)
  have 11: "layer11 L1 (rng_seed L1 42) = layer11 L2 (rng_seed L2 42)"
    by (simp add: layer11_def a po)
  show ?thesis by (simp add: draw_calls_def 1 8 11)
qed

text \<open>
  C4: two executions whose libraries agree (the same rasteriser, \<^verbatim>\<open>pow\<close>, \<^verbatim>\<open>cos\<close> and \<^verbatim>\<open>sin\<close>) and
  whose generators behave alike from the seed 42 produce the same canvas and the same two
  output rasters, pixel for pixel, or fail alike. The generator reaches the output through
  the ambient particles only; everything else is constant.
\<close>
theorem render_deterministic:
  "covers L1 = covers L2 \<Longrightarrow> fpow L1 = fpow L2 \<Longrightarrow> fcos L1 = fcos L2 \<Longrightarrow> fsin L1 = fsin L2 \<Longrightarrow>
     rng_sim R L1 L2 \<Longrightarrow> render L1 = render L2 \<and> main L1 = main L2"
proof -
  assume c: "covers L1 = covers L2" and p: "fpow L1 = fpow L2" and cs: "fcos L1 = fcos L2"
    and sn: "fsin L1 = fsin L2" and sim: "rng_sim R L1 L2"
  have d: "draw_calls L1 = draw_calls L2" using p cs sn sim by (rule draw_calls_sim)
  have pd: "pil_draw L1 = pil_draw L2" by (intro ext) (simp add: pil_draw_def c)
  have r: "render L1 = render L2" by (simp add: render_def d pd)
  then show ?thesis by (simp add: main_def)
qed

theorem render_deterministic_witness:
  "covers sample_lib = covers sample_lib_int \<and> fpow sample_lib = fpow sample_lib_int \<and>
   fcos sample_lib = fcos sample_lib_int \<and> fsin sample_lib = fsin sample_lib_int \<and>
   rng_sim (\<lambda>s t. t = int s) sample_lib sample_lib_int \<and>
   render sample_lib = render sample_lib_int \<and> main sample_lib = main sample_lib_int \<and>
   main sample_lib = main sample_lib"
proof -
  have e: "covers sample_lib = covers sample_lib_int" "fpow sample_lib = fpow sample_lib_int"
    "fcos sample_lib = fcos sample_lib_int" "fsin sample_lib = fsin sample_lib_int"
    by (simp_all add: sample_lib_int_def)
  note t = render_deterministic [OF e sample_sim]
  show ?thesis using e sample_sim t by simp
qed

text \<open>
  C2, amended: every pixel of the RGBA output is the canvas pixel composited over the opaque
  background pixel (10, 10, 13, 255) and has alpha 255, so the alpha channel of the RGBA file
  is constant; every pixel of the RGB output is that pixel without its alpha channel, so
  nothing transparent is left in either file.
\<close>
theorem outputs_resolved:
  "(main L = Inr out \<longrightarrow>
      (\<exists>img. render L = Inr img \<and>
         (\<forall>x y. ipix (rgba_file out) x y = composite_px (10, 10, 13, 255) (ipix img x y) \<and>
                px_alpha (ipix (rgba_file out) x y) = 255 \<and>
                ipix (rgb_file out) x y = px_rgb (ipix (rgba_file out) x y)))) \<and>
   (randbelow_ok L \<longrightarrow> (\<exists>out. main L = Inr out))"
proof (intro conjI impI)
  assume m: "main L = Inr out"
  from main_pixels [OF m] obtain img :: "rgba image" where i: "render L = Inr img"
    "rgba_file out = \<lparr>isize = (1024, 1024), ipix = (\<lambda>x y. composite_px (10, 10, 13, 255) (ipix img x y))\<rparr>"
    "rgb_file out = \<lparr>isize = (1024, 1024), ipix = (\<lambda>x y. px_rgb (composite_px (10, 10, 13, 255) (ipix img x y)))\<rparr>"
    by blast
  have a: "\<And>x y. px_alpha (composite_px (10, 10, 13, 255) (ipix img x y)) = 255"
    by (rule composite_px_opaque) (simp add: px_alpha_def)
  show "\<exists>img. render L = Inr img \<and>
         (\<forall>x y. ipix (rgba_file out) x y = composite_px (10, 10, 13, 255) (ipix img x y) \<and>
                px_alpha (ipix (rgba_file out) x y) = 255 \<and>
                ipix (rgb_file out) x y = px_rgb (ipix (rgba_file out) x y))"
    using i a by - (rule exI [of _ img], simp)
next
  assume "randbelow_ok L"
  then obtain img where img: "render L = Inr img" "isize img = (1024, 1024)" using render_ok by blast
  show "\<exists>out. main L = Inr out"
    by (simp add: main_def img(1) bind_res_def save_section_eval [OF img(2)])
qed

theorem outputs_resolved_witness:
  "randbelow_ok sample_lib \<and>
   (\<exists>out img. main sample_lib = Inr out \<and> render sample_lib = Inr img \<and>
       (\<forall>x y. ipix (rgba_file out) x y = composite_px (10, 10, 13, 255) (ipix img x y) \<and>
              px_alpha (ipix (rgba_file out) x y) = 255 \<and>
              ipix (rgb_file out) x y = px_rgb (ipix (rgba_file out) x y)))"
proof -
  obtain out where m: "main sample_lib = Inr out"
    using outputs_resolved [of sample_lib] sample_randbelow_ok by blast
  obtain img where "render sample_lib = Inr img \<and>
       (\<forall>x y. ipix (rgba_file out) x y = composite_px (10, 10, 13, 255) (ipix img x y) \<and>
              px_alpha (ipix (rgba_file out) x y) = 255 \<and>
              ipix (rgb_file out) x y = px_rgb (ipix (rgba_file out) x y))"
    using outputs_resolved [of sample_lib out] m by blast
  then show ?thesis using m sample_randbelow_ok by blast
qed

end
